theory Spec2Isabelle
  imports Complex_Main "HOL-Library.Sublist"
begin

section \<open>PiSite Manager: a shallow embedding of \<open>manager.py\<close>\<close>

text \<open>
  The development follows \<open>src/manager.py\<close>. A \<open>bytes\<close> object is a list of 8-bit
  characters, a decoded \<open>str\<close> is a list of Unicode code points, and the short \<open>str\<close>
  values of the configuration (site names, directories, commands) are kept as HOL strings.
  The operating system (processes, tmux, directories, the clock) is an explicit \<open>world\<close>
  that every operation receives and returns; an exception is a value of type \<open>exn\<close>,
  returned together with the world as it was when the exception was raised.
\<close>

subsection \<open>Text: \<open>bytes.decode("utf-8", "ignore")\<close>, \<open>str.splitlines\<close>, \<open>str.encode\<close>\<close>

type_synonym bytes = "char list"
type_synonym str = "nat list"

definition ascii :: "string \<Rightarrow> str" where
  "ascii s = map of_char s"

definition is_continuation_byte :: "nat \<Rightarrow> bool" where
  "is_continuation_byte b \<longleftrightarrow> 128 \<le> b \<and> b < 192"

text \<open>
  The result of decoding one character at the head of the input, as the interpreter's UTF-8
  decoder reports it to the error handler: a code point and the number of bytes it took, an
  invalid sequence with the number of bytes the error covers, or the end of the data inside
  a sequence that was valid so far.
\<close>

datatype utf8_result = Decoded nat nat | Invalid nat | UnexpectedEnd

definition utf8_two :: "nat \<Rightarrow> nat list \<Rightarrow> utf8_result" where
  "utf8_two b bs =
     (case bs of [] \<Rightarrow> UnexpectedEnd
      | b2 # r \<Rightarrow>
          if is_continuation_byte b2 then Decoded ((b - 192) * 64 + (b2 - 128)) 2
          else Invalid 1)"

definition utf8_three :: "nat \<Rightarrow> nat list \<Rightarrow> utf8_result" where
  "utf8_three b bs =
     (case bs of [] \<Rightarrow> UnexpectedEnd
      | b2 # r \<Rightarrow>
          if \<not> is_continuation_byte b2 \<or> (b = 224 \<and> b2 < 160) \<or> (b = 237 \<and> 160 \<le> b2)
          then Invalid 1
          else (case r of [] \<Rightarrow> UnexpectedEnd
                | b3 # r' \<Rightarrow>
                    if is_continuation_byte b3
                    then Decoded ((b - 224) * 4096 + (b2 - 128) * 64 + (b3 - 128)) 3
                    else Invalid 2))"

definition utf8_four :: "nat \<Rightarrow> nat list \<Rightarrow> utf8_result" where
  "utf8_four b bs =
     (case bs of [] \<Rightarrow> UnexpectedEnd
      | b2 # r \<Rightarrow>
          if \<not> is_continuation_byte b2 \<or> (b = 240 \<and> b2 < 144) \<or> (b = 244 \<and> 144 \<le> b2)
          then Invalid 1
          else (case r of [] \<Rightarrow> UnexpectedEnd
                | b3 # r' \<Rightarrow>
                    if \<not> is_continuation_byte b3 then Invalid 2
                    else (case r' of [] \<Rightarrow> UnexpectedEnd
                          | b4 # r'' \<Rightarrow>
                              if is_continuation_byte b4
                              then Decoded ((b - 240) * 262144 + (b2 - 128) * 4096
                                            + (b3 - 128) * 64 + (b4 - 128)) 4
                              else Invalid 3)))"

definition utf8_decode :: "nat \<Rightarrow> nat list \<Rightarrow> utf8_result" where
  "utf8_decode b bs =
     (if b < 128 then Decoded b 1
      else if b < 194 then Invalid 1
      else if b < 224 then utf8_two b bs
      else if b < 240 then utf8_three b bs
      else if b < 245 then utf8_four b bs
      else Invalid 1)"

text \<open>
  The error handler \<open>"ignore"\<close>: the bytes an error covers are skipped and nothing is put
  in their place; an unexpected end of the data covers all that is left.
\<close>

function utf8_ignore :: "nat list \<Rightarrow> str" where
  "utf8_ignore [] = []"
| "utf8_ignore (b # bs) =
     (case utf8_decode b bs of
        Decoded c n \<Rightarrow> c # utf8_ignore (drop (n - 1) bs)
      | Invalid n \<Rightarrow> utf8_ignore (drop (n - 1) bs)
      | UnexpectedEnd \<Rightarrow> [])"
  by pat_completeness auto
termination
  by (relation "measure length") auto

definition decode :: "bytes \<Rightarrow> str" where
  "decode data = utf8_ignore (map of_char data)"

text \<open>
  The error handler \<open>"replace"\<close>, which the code does not use: each error puts the
  substitution marker U+FFFD in the output.
\<close>

definition replacement_character :: nat where
  "replacement_character = 65533"

function utf8_replace :: "nat list \<Rightarrow> str" where
  "utf8_replace [] = []"
| "utf8_replace (b # bs) =
     (case utf8_decode b bs of
        Decoded c n \<Rightarrow> c # utf8_replace (drop (n - 1) bs)
      | Invalid n \<Rightarrow> replacement_character # utf8_replace (drop (n - 1) bs)
      | UnexpectedEnd \<Rightarrow> [replacement_character])"
  by pat_completeness auto
termination
  by (relation "measure length") auto

text \<open>The line boundaries of \<open>str.splitlines\<close>; a carriage return followed by a line feed is one.\<close>

definition linebreak :: "nat \<Rightarrow> bool" where
  "linebreak c \<longleftrightarrow> c \<in> {10, 11, 12, 13, 28, 29, 30, 133, 8232, 8233}"

fun splitlines_from :: "str \<Rightarrow> str \<Rightarrow> str list" where
  "splitlines_from cur [] = (if cur = [] then [] else [cur])"
| "splitlines_from cur [c] = (if linebreak c then [cur] else [cur @ [c]])"
| "splitlines_from cur (c # d # r) =
     (if c = 13 \<and> d = 10 then cur # splitlines_from [] r
      else if linebreak c then cur # splitlines_from [] (d # r)
      else splitlines_from (cur @ [c]) (d # r))"

definition splitlines :: "str \<Rightarrow> str list" where
  "splitlines s = splitlines_from [] s"

text \<open>
  The code points a \<open>str\<close> made by decoding can hold: the Unicode scalar values, that is
  all code points up to U+10FFFF but the surrogates.
\<close>

definition scalar :: "nat \<Rightarrow> bool" where
  "scalar c \<longleftrightarrow> c < 1114112 \<and> (c < 55296 \<or> 57343 < c)"

text \<open>
  \<open>str.encode("utf-8")\<close> on one code point. The surrogates, on which the interpreter raises,
  never come out of \<open>decode\<close> (lemma \<open>utf8_ignore_scalar\<close> below), and the streamer encodes
  decoded text only.
\<close>

definition encode_char :: "nat \<Rightarrow> nat list" where
  "encode_char c =
     (if c < 128 then [c]
      else if c < 2048 then [192 + c div 64, 128 + c mod 64]
      else if c < 65536 then [224 + c div 4096, 128 + (c div 64) mod 64, 128 + c mod 64]
      else [240 + c div 262144, 128 + (c div 4096) mod 64, 128 + (c div 64) mod 64,
            128 + c mod 64])"

definition encode :: "str \<Rightarrow> bytes" where
  "encode s = map char_of (concat (map encode_char s))"

text \<open>The slice \<open>xs[i:]\<close> of a Python list, for any integer \<open>i\<close>.\<close>

definition slice_from :: "int \<Rightarrow> 'a list \<Rightarrow> 'a list" where
  "slice_from i xs =
     (if i < 0 then drop (nat (int (length xs) + i)) xs else drop (nat i) xs)"

subsection \<open>Log files and the log tailer\<close>

text \<open>
  What a path shows during one access: no file, or a file with its content, which the
  process may or may not be allowed to open. One access sees one content: the file does
  not change between \<open>stat\<close>, \<open>seek\<close> and \<open>read\<close> of the same access.
\<close>

datatype log_file = NoFile | File (readable: bool) (content: bytes)

definition block :: nat where
  "block = 4 * 1024"

definition newline :: char where
  "newline = CHR 0x0A"

function tail_loop :: "bytes \<Rightarrow> int \<Rightarrow> nat \<Rightarrow> bytes \<Rightarrow> bytes" where
  "tail_loop f n sz data =
     (if 0 < sz \<and> int (count_list data newline) \<le> n + 1
      then (let step = min block sz; sz' = sz - step
            in tail_loop f n sz' (take step (drop sz' f) @ data))
      else data)"
  by pat_completeness auto
termination
  by (relation "measure (\<lambda>(f, n, sz, data). sz)") (auto simp: block_def)

declare tail_loop.simps [simp del]

definition tail_file :: "log_file \<Rightarrow> int \<Rightarrow> str list" where
  "tail_file path n =
     (case path of
        NoFile \<Rightarrow> []
      | File r f \<Rightarrow>
          if \<not> r then []
          else slice_from (- n) (splitlines (decode (tail_loop f n (length f) []))))"

subsection \<open>The log streamer\<close>

text \<open>
  The generator \<open>sse_tail\<close> keeps four local variables. One pass of its loop observes the
  clock and the file once; the clock is read as an exact rational number of seconds.
\<close>

record sse_state =
  last_size :: nat
  pending :: "str list"
  last_flush :: rat
  last_keepalive :: rat

definition sse_payload :: "str list \<Rightarrow> bytes" where
  "sse_payload lines =
     encode (concat (map (\<lambda>line. ascii ''data: '' @ line @ [10]) lines @ [[10]]))"

definition clear_event :: bytes where
  "clear_event = ''data: __CLEAR__'' @ [newline, newline]"

definition keepalive_event :: bytes where
  "keepalive_event = '': keep-alive'' @ [newline, newline]"

text \<open>
  The part of a pass that looks at the file. The first component is False when opening
  the file raised; the assignments made before that stay.
\<close>

definition sse_read :: "log_file \<Rightarrow> sse_state \<Rightarrow> bool \<times> sse_state" where
  "sse_read path s =
     (case path of
        NoFile \<Rightarrow> (True, s)
      | File r f \<Rightarrow>
          (let sz = length f;
               s1 = (if sz < last_size s then s\<lparr>last_size := 0\<rparr> else s)
           in if sz > last_size s1
              then (if r
                    then (let chunk = take (sz - last_size s1) (drop (last_size s1) f)
                          in (True, s1\<lparr>last_size := sz,
                                       pending := pending s1 @ splitlines (decode chunk)\<rparr>))
                    else (False, s1))
              else (True, s1)))"

definition sse_flush :: "rat \<Rightarrow> sse_state \<Rightarrow> bytes list \<times> sse_state" where
  "sse_flush now s =
     (if pending s \<noteq> [] \<and> now - last_flush s \<ge> 1 / 4
      then ([sse_payload (pending s)], s\<lparr>pending := [], last_flush := now\<rparr>)
      else ([], s))"

definition sse_keepalive :: "rat \<Rightarrow> sse_state \<Rightarrow> bytes list \<times> sse_state" where
  "sse_keepalive now s =
     (if now - last_keepalive s \<ge> 10
      then ([keepalive_event], s\<lparr>last_keepalive := now\<rparr>)
      else ([], s))"

definition sse_iteration :: "rat \<Rightarrow> log_file \<Rightarrow> sse_state \<Rightarrow> bytes list \<times> sse_state" where
  "sse_iteration now path s =
     (case sse_read path s of
        (False, s1) \<Rightarrow> ([], s1)
      | (True, s1) \<Rightarrow>
          (case sse_flush now s1 of
             (out1, s2) \<Rightarrow>
               (case sse_keepalive now s2 of
                  (out2, s3) \<Rightarrow> (out1 @ out2, s3))))"

text \<open>
  The loop runs until the consumer goes away: the events of a stream are those of the
  passes made so far, one pass for each observation of the clock and the file.
\<close>

fun sse_loop :: "(rat \<times> log_file) list \<Rightarrow> sse_state \<Rightarrow> bytes list" where
  "sse_loop [] s = []"
| "sse_loop ((now, path) # obs) s =
     (case sse_iteration now path s of (out, s') \<Rightarrow> out @ sse_loop obs s')"

definition sse_init :: "rat \<Rightarrow> rat \<Rightarrow> sse_state" where
  "sse_init t_flush t_keepalive =
     \<lparr>last_size = 0, pending = [], last_flush = t_flush, last_keepalive = t_keepalive\<rparr>"

definition sse_tail :: "rat \<Rightarrow> rat \<Rightarrow> (rat \<times> log_file) list \<Rightarrow> bytes list" where
  "sse_tail t_flush t_keepalive obs = clear_event # sse_loop obs (sse_init t_flush t_keepalive)"



subsection \<open>Sites, configuration and the world around the manager\<close>

text \<open>
  A site as \<open>add_site\<close> writes it, with all seven keys; the key \<open>log\<close> is the field
  \<open>log_path\<close>. A configuration is the list under \<open>sites\<close> (a missing key reads as the
  empty list everywhere) and the three optional entries under \<open>auth\<close>.
\<close>

record site =
  name :: string
  cwd :: string
  cmd :: string
  port :: "int option"
  log_path :: string
  autostart :: bool
  autorestart :: bool

record credentials =
  username :: "string option"
  password :: "string option"
  token :: "string option"

record config =
  sites :: "site list"
  auth :: credentials

definition DEFAULT_CONFIG :: config where
  "DEFAULT_CONFIG =
     \<lparr>sites = [],
      auth = \<lparr>username = Some ''admin'', password = Some ''password'', token = None\<rparr>\<rparr>"

datatype exn =
    HTTPException nat string
  | CalledProcessError
  | FileNotFoundError
  | OSError
  | ValueError
  | JSONDecodeError
  | AttributeError

text \<open>
  A working directory is there, or is missing and \<open>mkdir\<close> can make it, or is missing and
  \<open>mkdir\<close> raises. A stored file holds the JSON text of a configuration or text that
  \<open>json.load\<close> rejects (an empty or cut-off file). Sending the termination signal to the
  group of a process succeeds, finds no process, or fails for another reason.
\<close>

datatype dir_entry = Dir | Creatable | Blocked

datatype stored = Json config | Unparseable

datatype signal_outcome = Delivered | NoSuchProcess | Failed string

record spawn =
  spawn_cwd :: string
  spawn_cmd :: string
  spawn_log :: string
  spawn_pid :: int

text \<open>
  The world: the environment variables, the three files of the configuration store, the
  global \<open>CONFIG\<close>, the directories, tmux and its sessions (matched by their exact name),
  the run records under \<open>PID_DIR\<close> by site name, the answers of the operating system to
  \<open>os.kill(pid, 0)\<close> and to \<open>os.killpg(os.getpgid(pid), SIGTERM)\<close>, the process id the next
  child gets, and the children \<open>Popen\<close> has started so far.
\<close>

record world =
  env_username :: "string option"
  env_password :: "string option"
  env_token :: "string option"
  config_json :: "stored option"
  config_bak :: "stored option"
  config_tmp :: "stored option"
  CONFIG :: config
  entries :: "string \<Rightarrow> dir_entry"
  tmux_installed :: bool
  sessions :: "string set"
  pid_files :: "string \<Rightarrow> string option"
  alive :: "int \<Rightarrow> bool"
  killpg :: "int \<Rightarrow> signal_outcome"
  next_pid :: int
  spawned :: "spawn list"

subsection \<open>The configuration store\<close>

definition override :: "string option \<Rightarrow> string option \<Rightarrow> string option" where
  "override env v = (case env of None \<Rightarrow> v | Some e \<Rightarrow> if e \<noteq> [] then Some e else v)"

definition apply_env_overrides :: "world \<Rightarrow> config \<Rightarrow> config" where
  "apply_env_overrides w cfg =
     cfg\<lparr>auth := \<lparr>username = override (env_username w) (username (auth cfg)),
                   password = override (env_password w) (password (auth cfg)),
                   token = override (env_token w) (token (auth cfg))\<rparr>\<rparr>"

definition load_config :: "world \<Rightarrow> (exn + config) \<times> world" where
  "load_config w =
     (let w1 = (if config_json w = None then w\<lparr>config_json := Some (Json DEFAULT_CONFIG)\<rparr>
                else w)
      in case config_json w1 of
           Some (Json cfg) \<Rightarrow> (Inr (apply_env_overrides w1 cfg), w1)
         | _ \<Rightarrow> (Inl JSONDecodeError, w1))"

text \<open>
  The four steps of \<open>atomic_write_config\<close>, each taken as durable once made: open the
  temporary file for writing (it is empty, or holds a part of the text, until the next
  step is over), dump the text and sync it, move the live file to the backup if there is
  one, move the temporary file into place.
\<close>

definition open_tmp :: "world \<Rightarrow> world" where
  "open_tmp w = w\<lparr>config_tmp := Some Unparseable\<rparr>"

definition dump_tmp :: "config \<Rightarrow> world \<Rightarrow> world" where
  "dump_tmp cfg w = w\<lparr>config_tmp := Some (Json cfg)\<rparr>"

definition rotate_backup :: "world \<Rightarrow> world" where
  "rotate_backup w =
     (if config_json w \<noteq> None then w\<lparr>config_bak := config_json w, config_json := None\<rparr>
      else w)"

definition rename_into_place :: "world \<Rightarrow> world" where
  "rename_into_place w = w\<lparr>config_json := config_tmp w, config_tmp := None\<rparr>"

definition write_steps :: "config \<Rightarrow> (world \<Rightarrow> world) list" where
  "write_steps cfg = [open_tmp, dump_tmp cfg, rotate_backup, rename_into_place]"

definition run_steps :: "(world \<Rightarrow> world) list \<Rightarrow> world \<Rightarrow> world" where
  "run_steps steps w = fold (\<lambda>step. step) steps w"

definition atomic_write_config :: "config \<Rightarrow> world \<Rightarrow> world" where
  "atomic_write_config cfg w = run_steps (write_steps cfg) w"

text \<open>The process killed after the first \<open>k\<close> steps of the write.\<close>

definition interrupted_write :: "nat \<Rightarrow> config \<Rightarrow> world \<Rightarrow> world" where
  "interrupted_write k cfg w = run_steps (take k (write_steps cfg)) w"

definition assign_config :: "world \<Rightarrow> (exn + unit) \<times> world" where
  "assign_config w =
     (case load_config w of
        (Inl e, w1) \<Rightarrow> (Inl e, w1)
      | (Inr cfg, w1) \<Rightarrow> (Inr (), w1\<lparr>CONFIG := cfg\<rparr>))"

definition get_site :: "string \<Rightarrow> world \<Rightarrow> site option" where
  "get_site n w = find (\<lambda>s. name s = n) (sites (CONFIG w))"

subsection \<open>Integers as text\<close>

definition digit_char :: "nat \<Rightarrow> char" where
  "digit_char d = char_of (48 + d)"

fun str_nat :: "nat \<Rightarrow> string" where
  "str_nat n = (if n < 10 then [digit_char n] else str_nat (n div 10) @ [digit_char (n mod 10)])"

declare str_nat.simps [simp del]

definition str_int :: "int \<Rightarrow> string" where
  "str_int i = (if i < 0 then CHR ''-'' # str_nat (nat (- i)) else str_nat (nat i))"

text \<open>
  \<open>int(text.strip())\<close> on the text of a run record: white space around, a sign, decimal
  digits with single underscores between them. A byte above 127 counts as neither white
  space nor digit.
\<close>

definition whitespace :: "char \<Rightarrow> bool" where
  "whitespace c \<longleftrightarrow> (of_char c :: nat) \<in> {9, 10, 11, 12, 13, 28, 29, 30, 31, 32}"

definition strip :: "string \<Rightarrow> string" where
  "strip s = rev (dropWhile whitespace (rev (dropWhile whitespace s)))"

definition is_digit :: "char \<Rightarrow> bool" where
  "is_digit c \<longleftrightarrow> 48 \<le> (of_char c :: nat) \<and> (of_char c :: nat) \<le> 57"

fun digits_ok :: "string \<Rightarrow> bool" where
  "digits_ok [] = False"
| "digits_ok [c] = is_digit c"
| "digits_ok (c # d # r) =
     (is_digit c \<and> (if d = CHR ''_'' then digits_ok r else digits_ok (d # r)))"

definition digits_value :: "string \<Rightarrow> nat" where
  "digits_value body = foldl (\<lambda>a c. 10 * a + (of_char c - 48)) 0 (filter is_digit body)"

definition py_int :: "string \<Rightarrow> int option" where
  "py_int s =
     (let t = strip s;
          neg = (t \<noteq> [] \<and> hd t = CHR ''-'');
          body = (if t \<noteq> [] \<and> (hd t = CHR ''-'' \<or> hd t = CHR ''+'') then tl t else t)
      in if digits_ok body
         then Some (if neg then - int (digits_value body) else int (digits_value body))
         else None)"

subsection \<open>The two backends\<close>

definition tmux_available :: "world \<Rightarrow> bool" where
  "tmux_available w = tmux_installed w"

definition tmux_has_session :: "string \<Rightarrow> world \<Rightarrow> bool" where
  "tmux_has_session n w \<longleftrightarrow> tmux_installed w \<and> n \<in> sessions w"

text \<open>
  The shell command line that \<open>wrap_unbuffered\<close> and the \<open>tee\<close> pipe build from \<open>cmd\<close> and
  \<open>logfile\<close> is not spelled out: a started session or child is known by the arguments of
  the start.
\<close>

definition tmux_start :: "string \<Rightarrow> string \<Rightarrow> string \<Rightarrow> string \<Rightarrow> world \<Rightarrow> (exn + string) \<times> world" where
  "tmux_start n c cm logfile w =
     (if entries w c \<noteq> Dir then (Inl (HTTPException 400 (''CWD does not exist: '' @ c)), w)
      else if \<not> tmux_installed w then (Inl FileNotFoundError, w)
      else if n \<in> sessions w then (Inl CalledProcessError, w)
      else (Inr (''Started '' @ n @ '' in tmux''), w\<lparr>sessions := insert n (sessions w)\<rparr>))"

definition tmux_stop :: "string \<Rightarrow> world \<Rightarrow> string \<times> world" where
  "tmux_stop n w =
     (if tmux_has_session n w then (''Stopped '' @ n, w\<lparr>sessions := sessions w - {n}\<rparr>)
      else (''Session '' @ n @ '' not running'', w))"

definition background_running :: "string \<Rightarrow> world \<Rightarrow> bool" where
  "background_running n w =
     (case pid_files w n of
        None \<Rightarrow> False
      | Some text \<Rightarrow> (case py_int text of None \<Rightarrow> False | Some pid \<Rightarrow> alive w pid))"

definition mkdir :: "string \<Rightarrow> world \<Rightarrow> (exn + unit) \<times> world" where
  "mkdir c w =
     (case entries w c of
        Dir \<Rightarrow> (Inr (), w)
      | Creatable \<Rightarrow> (Inr (), w\<lparr>entries := (entries w)(c := Dir)\<rparr>)
      | Blocked \<Rightarrow> (Inl OSError, w))"

definition popen :: "string \<Rightarrow> string \<Rightarrow> string \<Rightarrow> world \<Rightarrow> int \<times> world" where
  "popen c cm logfile w =
     (next_pid w,
      w\<lparr>spawned := spawned w @ [\<lparr>spawn_cwd = c, spawn_cmd = cm, spawn_log = logfile,
                                  spawn_pid = next_pid w\<rparr>],
        alive := (alive w)(next_pid w := True),
        next_pid := next_pid w + 1\<rparr>)"

definition background_start :: "string \<Rightarrow> string \<Rightarrow> string \<Rightarrow> string \<Rightarrow> world \<Rightarrow> (exn + string) \<times> world" where
  "background_start n c cm logfile w =
     (case mkdir c w of
        (Inl e, w1) \<Rightarrow> (Inl e, w1)
      | (Inr _, w1) \<Rightarrow>
          if background_running n w1
          then (Inr (n @ '' already running (pid '' @ strip (the (pid_files w1 n)) @ '')''), w1)
          else (case popen c cm logfile w1 of
                  (pid, w2) \<Rightarrow>
                    (Inr (''Started '' @ n @ '' (pid '' @ str_int pid @ '')''),
                     w2\<lparr>pid_files := (pid_files w2)(n \<mapsto> str_int pid)\<rparr>)))"

definition background_stop :: "string \<Rightarrow> world \<Rightarrow> string \<times> world" where
  "background_stop n w =
     (case pid_files w n of
        None \<Rightarrow> (''No pid for '' @ n, w)
      | Some text \<Rightarrow>
          (case py_int text of
             None \<Rightarrow> (''Invalid pid file removed for '' @ n, w\<lparr>pid_files := (pid_files w)(n := None)\<rparr>)
           | Some pid \<Rightarrow>
               (case killpg w pid of
                  Delivered \<Rightarrow>
                    (''Stopped '' @ n @ '' (pid '' @ str_int pid @ '')'',
                     w\<lparr>pid_files := (pid_files w)(n := None)\<rparr>)
                | NoSuchProcess \<Rightarrow>
                    (''Process not found. Cleared pid for '' @ n,
                     w\<lparr>pid_files := (pid_files w)(n := None)\<rparr>)
                | Failed e \<Rightarrow> (''Failed to stop '' @ n @ '': '' @ e, w))))"

text \<open>\<open>Path(cwd) / log\<close>: an absolute right operand stands alone.\<close>

definition site_logfile :: "site \<Rightarrow> string" where
  "site_logfile s =
     (if log_path s \<noteq> [] \<and> hd (log_path s) = CHR ''/'' then log_path s
      else cwd s @ ''/'' @ log_path s)"

subsection \<open>Request handlers\<close>

definition start_site :: "string \<Rightarrow> site \<Rightarrow> world \<Rightarrow> (exn + string) \<times> world" where
  "start_site n s w =
     (if tmux_available w
      then (if tmux_has_session n w then (Inr (n @ '' already running in tmux''), w)
            else tmux_start n (cwd s) (cmd s) (site_logfile s) w)
      else background_start n (cwd s) (cmd s) (site_logfile s) w)"

definition stop_site :: "string \<Rightarrow> world \<Rightarrow> string \<times> world" where
  "stop_site n w =
     (if tmux_available w \<and> tmux_has_session n w then tmux_stop n w else background_stop n w)"

definition action :: "string \<Rightarrow> string \<Rightarrow> world \<Rightarrow> (exn + string) \<times> world" where
  "action n op w =
     (case get_site n w of
        None \<Rightarrow> (Inl (HTTPException 404 ''Site not found''), w)
      | Some s \<Rightarrow>
          if op = ''start'' then start_site n s w
          else if op = ''stop'' then (case stop_site n w of (msg, w1) \<Rightarrow> (Inr msg, w1))
          else if op = ''restart''
          then (case stop_site n w of
                  (msg, w1) \<Rightarrow>
                    if tmux_available w1 then tmux_start n (cwd s) (cmd s) (site_logfile s) w1
                    else background_start n (cwd s) (cmd s) (site_logfile s) w1)
          else (Inl (HTTPException 400 ''Unknown op''), w))"

definition ascii_lower :: "char \<Rightarrow> char" where
  "ascii_lower c =
     (if 65 \<le> (of_char c :: nat) \<and> (of_char c :: nat) \<le> 90 then char_of (of_char c + 32 :: nat)
      else c)"

definition is_true :: "string \<Rightarrow> bool" where
  "is_true v \<longleftrightarrow> map ascii_lower v = ''true''"

definition name_ok :: "string \<Rightarrow> bool" where
  "name_ok n \<longleftrightarrow>
     n \<noteq> [] \<and> \<not> (\<exists>ch \<in> set [CHR ''/'', CHR 0x5C, CHR '' '', CHR 0x09, CHR 0x0A, CHR 0x0D]. ch \<in> set n)"

definition parse_port :: "string option \<Rightarrow> exn + int option" where
  "parse_port p =
     (case p of
        None \<Rightarrow> Inr None
      | Some text \<Rightarrow>
          if text = [] then Inr None
          else (case py_int text of None \<Rightarrow> Inl ValueError | Some i \<Rightarrow> Inr (Some i)))"

text \<open>The form fields of \<open>add_site\<close>, as the request carries them.\<close>

record add_form =
  form_name :: string
  form_cwd :: string
  form_cmd :: string
  form_port :: "string option"
  form_log :: string
  form_autostart :: string
  form_autorestart :: string
  form_start_after_add :: string

definition new_site :: "add_form \<Rightarrow> int option \<Rightarrow> site" where
  "new_site f p =
     \<lparr>name = form_name f, cwd = form_cwd f, cmd = form_cmd f, port = p,
      log_path = (if form_log f \<noteq> [] then form_log f else ''activity.log''),
      autostart = is_true (form_autostart f), autorestart = is_true (form_autorestart f)\<rparr>"

definition start_after_add :: "add_form \<Rightarrow> world \<Rightarrow> (exn + unit) \<times> world" where
  "start_after_add f w =
     (case get_site (form_name f) w of
        None \<Rightarrow> (Inl AttributeError, w)
      | Some s \<Rightarrow>
          if tmux_available w
          then (if \<not> tmux_has_session (form_name f) w
                then (case tmux_start (form_name f) (form_cwd f) (form_cmd f) (site_logfile s) w of
                        (Inl e, w1) \<Rightarrow> (Inl e, w1)
                      | (Inr _, w1) \<Rightarrow> (Inr (), w1))
                else (Inr (), w))
          else (case background_start (form_name f) (form_cwd f) (form_cmd f) (site_logfile s) w of
                  (Inl e, w1) \<Rightarrow> (Inl e, w1)
                | (Inr _, w1) \<Rightarrow> (Inr (), w1)))"

definition add_site :: "add_form \<Rightarrow> world \<Rightarrow> (exn + string) \<times> world" where
  "add_site f w =
     (if \<not> name_ok (form_name f)
      then (Inl (HTTPException 400 ''Invalid name (no spaces or slashes).''), w)
      else if get_site (form_name f) w \<noteq> None
      then (Inl (HTTPException 409 ''A site with that name already exists.''), w)
      else if form_cwd f = [] \<or> entries w (form_cwd f) \<noteq> Dir
      then (Inl (HTTPException 400 (''CWD does not exist: '' @ form_cwd f)), w)
      else if form_cmd f = []
      then (Inl (HTTPException 400 ''Command cannot be empty.''), w)
      else
        (case parse_port (form_port f) of
           Inl e \<Rightarrow> (Inl e, w)
         | Inr p_int \<Rightarrow>
             (case load_config w of
                (Inl e, w1) \<Rightarrow> (Inl e, w1)
              | (Inr cfg, w1) \<Rightarrow>
                  (let w2 = atomic_write_config (cfg\<lparr>sites := sites cfg @ [new_site f p_int]\<rparr>) w1
                   in case assign_config w2 of
                        (Inl e, w3) \<Rightarrow> (Inl e, w3)
                      | (Inr _, w3) \<Rightarrow>
                          if is_true (form_start_after_add f)
                          then (case start_after_add f w3 of
                                  (Inl e, w4) \<Rightarrow> (Inl e, w4)
                                | (Inr _, w4) \<Rightarrow>
                                    (Inr (''Added site '' @ form_name f @ '' and started''), w4))
                          else (Inr (''Added site '' @ form_name f), w3)))))"

definition delete_site :: "string \<Rightarrow> world \<Rightarrow> (exn + string) \<times> world" where
  "delete_site n w =
     (case get_site n w of
        None \<Rightarrow> (Inl (HTTPException 404 ''Site not found''), w)
      | Some s \<Rightarrow>
          (case stop_site n w of
             (msg, w1) \<Rightarrow>
               (case load_config w1 of
                  (Inl e, w2) \<Rightarrow> (Inl e, w2)
                | (Inr cfg, w2) \<Rightarrow>
                    (let w3 = atomic_write_config
                                (cfg\<lparr>sites := filter (\<lambda>s. name s \<noteq> n) (sites cfg)\<rparr>) w2
                     in case assign_config w3 of
                          (Inl e, w4) \<Rightarrow> (Inl e, w4)
                        | (Inr _, w4) \<Rightarrow>
                            (Inr (''Deleted site '' @ n),
                             w4\<lparr>pid_files := (pid_files w4)(n := None)\<rparr>)))))"

subsection \<open>The watchdog\<close>

definition is_running :: "string \<Rightarrow> world \<Rightarrow> bool" where
  "is_running n w \<longleftrightarrow> (tmux_available w \<and> tmux_has_session n w) \<or> background_running n w"

definition wants_start :: "site \<Rightarrow> world \<Rightarrow> bool" where
  "wants_start s w \<longleftrightarrow> (autostart s \<or> autorestart s) \<and> \<not> is_running (name s) w"

text \<open>The body of the \<open>for\<close> loop, for one site.\<close>

definition watchdog_site :: "site \<Rightarrow> world \<Rightarrow> (exn + unit) \<times> world" where
  "watchdog_site s w =
     (if wants_start s w
      then (if tmux_available w
            then (case tmux_start (name s) (cwd s) (cmd s) (site_logfile s) w of
                    (Inr _, w1) \<Rightarrow> (Inr (), w1)
                  | (Inl _, w1) \<Rightarrow>
                      (case background_start (name s) (cwd s) (cmd s) (site_logfile s) w1 of
                         (Inl e, w2) \<Rightarrow> (Inl e, w2)
                       | (Inr _, w2) \<Rightarrow> (Inr (), w2)))
            else (case background_start (name s) (cwd s) (cmd s) (site_logfile s) w of
                    (Inl e, w1) \<Rightarrow> (Inl e, w1)
                  | (Inr _, w1) \<Rightarrow> (Inr (), w1)))
      else (Inr (), w))"

text \<open>The \<open>for\<close> loop: an exception of the body leaves the loop.\<close>

fun watchdog_for :: "site list \<Rightarrow> world \<Rightarrow> (exn + unit) \<times> world" where
  "watchdog_for [] w = (Inr (), w)"
| "watchdog_for (s # rest) w =
     (case watchdog_site s w of
        (Inl e, w1) \<Rightarrow> (Inl e, w1)
      | (Inr _, w1) \<Rightarrow> watchdog_for rest w1)"

text \<open>One pass: the \<open>try\<close> around the loop swallows the exception.\<close>

definition watchdog_pass :: "world \<Rightarrow> world" where
  "watchdog_pass w = snd (watchdog_for (sites (CONFIG w)) w)"

subsection \<open>What the claims speak of, and worlds to try them on\<close>

text \<open>
  The site list as the configuration file holds it: a missing file reads as the default
  configuration, which has no site; a file that does not parse shows no list.
\<close>

definition persisted_sites :: "world \<Rightarrow> site list" where
  "persisted_sites w = (case config_json w of Some (Json cfg) \<Rightarrow> sites cfg | _ \<Rightarrow> [])"

text \<open>
  A valid site name in the words of the specification: not empty; no slash, backslash,
  space, tab or newline. The check of \<open>add_site\<close>, \<open>name_ok\<close>, also refuses a carriage
  return.
\<close>

definition spec_valid_name :: "string \<Rightarrow> bool" where
  "spec_valid_name n \<longleftrightarrow>
     n \<noteq> [] \<and> set n \<inter> {CHR ''/'', CHR 0x5C, CHR '' '', CHR 0x09, CHR 0x0A} = {}"

definition site_a :: site where
  "site_a = \<lparr>name = ''a'', cwd = ''/srv/a'', cmd = ''python3 app.py'', port = None,
             log_path = ''activity.log'', autostart = True, autorestart = False\<rparr>"

definition site_b :: site where
  "site_b = \<lparr>name = ''b'', cwd = ''/srv/b'', cmd = ''python3 app.py'', port = None,
             log_path = ''activity.log'', autostart = True, autorestart = False\<rparr>"

definition one_site_config :: config where
  "one_site_config = DEFAULT_CONFIG\<lparr>sites := [site_a]\<rparr>"

definition two_site_config :: config where
  "two_site_config = DEFAULT_CONFIG\<lparr>sites := [site_a, site_b]\<rparr>"

text \<open>
  A host without tmux where nothing runs: the default configuration on disk and in memory,
  every directory there, no run record, no live process.
\<close>

definition quiet_world :: world where
  "quiet_world =
     \<lparr>env_username = None, env_password = None, env_token = None,
      config_json = Some (Json DEFAULT_CONFIG), config_bak = None, config_tmp = None,
      CONFIG = DEFAULT_CONFIG, entries = (\<lambda>p. Dir), tmux_installed = False, sessions = {},
      pid_files = (\<lambda>n. None), alive = (\<lambda>p. False), killpg = (\<lambda>p. NoSuchProcess),
      next_pid = 100, spawned = []\<rparr>"

text \<open>Two sites, no tmux; the directory of the first is missing and cannot be made.\<close>

definition blocked_world :: world where
  "blocked_world =
     quiet_world\<lparr>CONFIG := two_site_config,
                 entries := (\<lambda>p. if p = ''/srv/a'' then Blocked else Dir)\<rparr>"

text \<open>Two sites, tmux installed; the directory of the first is missing and can be made.\<close>

definition fallback_world :: world where
  "fallback_world =
     quiet_world\<lparr>CONFIG := two_site_config, tmux_installed := True,
                 entries := (\<lambda>p. if p = ''/srv/a'' then Creatable else Dir)\<rparr>"

text \<open>One site, running in a tmux session.\<close>

definition session_world :: world where
  "session_world =
     quiet_world\<lparr>CONFIG := one_site_config, tmux_installed := True, sessions := {''a''}\<rparr>"

text \<open>One site, tmux installed; the directory of the site is missing and can be made.\<close>

definition split_world :: world where
  "split_world =
     quiet_world\<lparr>CONFIG := one_site_config, tmux_installed := True,
                 entries := (\<lambda>p. if p = ''/srv/a'' then Creatable else Dir)\<rparr>"

definition form_a :: add_form where
  "form_a =
     \<lparr>form_name = ''a'', form_cwd = ''/srv/a'', form_cmd = ''python3 app.py'',
      form_port = Some ''8080'', form_log = [], form_autostart = ''True'',
      form_autorestart = ''false'', form_start_after_add = ''true''\<rparr>"

text \<open>The bytes that start no UTF-8 sequence at all, wherever they stand.\<close>

definition never_valid :: "char \<Rightarrow> bool" where
  "never_valid b \<longleftrightarrow> (of_char b :: nat) \<in> {192, 193} \<or> 245 \<le> (of_char b :: nat)"

section \<open>Properties of the text functions\<close>

lemmas text_eval = decode_def utf8_decode_def utf8_two_def utf8_three_def utf8_four_def
  is_continuation_byte_def splitlines_def linebreak_def slice_from_def ascii_def

lemma utf8_decode_app_Decoded:
  "utf8_decode b bs = Decoded c n \<Longrightarrow>
     utf8_decode b (bs @ ys) = Decoded c n \<and> n - 1 \<le> length bs"
  by (auto simp: utf8_decode_def utf8_two_def utf8_three_def utf8_four_def
      split: if_splits list.splits)

lemma utf8_decode_app_Invalid:
  "utf8_decode b bs = Invalid n \<Longrightarrow>
     utf8_decode b (bs @ ys) = Invalid n \<and> n - 1 \<le> length bs"
  by (auto simp: utf8_decode_def utf8_two_def utf8_three_def utf8_four_def
      split: if_splits list.splits)

lemma utf8_decode_app_End:
  "utf8_decode b bs = UnexpectedEnd \<Longrightarrow> \<not> is_continuation_byte y \<Longrightarrow>
     utf8_decode b (bs @ y # ys) = Invalid (Suc (length bs))"
  by (auto simp: utf8_decode_def utf8_two_def utf8_three_def utf8_four_def
      split: if_splits list.splits)

text \<open>
  Decoding starts afresh at every byte that is not a continuation byte: what stands
  before it never changes how it and the bytes after it are read.
\<close>

lemma utf8_ignore_append:
  "ys = [] \<or> \<not> is_continuation_byte (hd ys) \<Longrightarrow>
     utf8_ignore (xs @ ys) = utf8_ignore xs @ utf8_ignore ys"
proof (induction xs rule: utf8_ignore.induct)
  case 1
  show ?case by simp
next
  case (2 b bs)
  show ?case
  proof (cases "utf8_decode b bs")
    case (Decoded c n)
    from utf8_decode_app_Decoded[OF this, of ys]
    have d: "utf8_decode b (bs @ ys) = Decoded c n" and "n - 1 \<le> length bs" by simp_all
    then have "drop (n - 1) (bs @ ys) = drop (n - 1) bs @ ys" by simp
    with d 2(1)[OF Decoded] 2(3) Decoded show ?thesis by simp
  next
    case (Invalid n)
    from utf8_decode_app_Invalid[OF this, of ys]
    have d: "utf8_decode b (bs @ ys) = Invalid n" and "n - 1 \<le> length bs" by simp_all
    then have "drop (n - 1) (bs @ ys) = drop (n - 1) bs @ ys" by simp
    with d 2(2)[OF Invalid] 2(3) Invalid show ?thesis by simp
  next
    case UnexpectedEnd
    show ?thesis
    proof (cases ys)
      case Nil
      then show ?thesis by simp
    next
      case (Cons y ys')
      with 2(3) have "\<not> is_continuation_byte y" by simp
      from utf8_decode_app_End[OF UnexpectedEnd this, of ys'] UnexpectedEnd Cons
      show ?thesis by simp
    qed
  qed
qed

lemma utf8_ignore_ascii: "b < 128 \<Longrightarrow> utf8_ignore (b # bs) = b # utf8_ignore bs"
  by (simp add: utf8_decode_def)

lemma utf8_ignore_scalar:
  "c \<in> set (utf8_ignore bs) \<Longrightarrow> c < 1114112 \<and> \<not> (55296 \<le> c \<and> c \<le> 57343)"
proof (induction bs rule: utf8_ignore.induct)
  case 1
  then show ?case by simp
next
  case (2 b bs)
  show ?case
  proof (cases "utf8_decode b bs")
    case (Decoded d n)
    have "d < 1114112 \<and> \<not> (55296 \<le> d \<and> d \<le> 57343)"
      using Decoded
      by (cases "b \<le> 237")
         (auto simp: utf8_decode_def utf8_two_def utf8_three_def utf8_four_def
            is_continuation_byte_def split: if_splits list.splits)
    with 2 Decoded show ?thesis by auto
  next
    case (Invalid n)
    with 2 show ?thesis by auto
  next
    case UnexpectedEnd
    with 2 show ?thesis by auto
  qed
qed

text \<open>
  What the decoder takes for a character is the UTF-8 encoding of that character, byte for
  byte: no overlong form and no surrogate gets through.
\<close>

lemma encode_char_two: "2 \<le> q \<Longrightarrow> q < 32 \<Longrightarrow> t < 64 \<Longrightarrow>
   encode_char (q * 64 + t) = [192 + q, 128 + t]"
  by (simp add: encode_char_def)

lemma encode_char_four: "q < 5 \<Longrightarrow> r < 64 \<Longrightarrow> s < 64 \<Longrightarrow> t < 64 \<Longrightarrow> (q = 0 \<longrightarrow> 16 \<le> r) \<Longrightarrow>
   encode_char (q * 262144 + r * 4096 + s * 64 + t) = [240 + q, 128 + r, 128 + s, 128 + t]"
proof -
  assume a: "q < 5" "r < 64" "s < 64" "t < 64" "q = 0 \<longrightarrow> 16 \<le> r"
  let ?c = "q * 262144 + r * 4096 + s * 64 + t"
  have 1: "?c div 262144 = q" using a by simp
  have 2: "?c div 4096 = q * 64 + r" using a by simp
  have 3: "?c div 64 = (q * 64 + r) * 64 + s" using a by simp
  have "?c = (q * 4096 + r * 64 + s) * 64 + t" by simp
  then have "?c mod 64 = t mod 64" by (simp only: mod_mult_self3)
  then have 4: "?c mod 64 = t" using a by simp
  have 5: "(q * 64 + r) mod 64 = r" using a by simp
  have 6: "((q * 64 + r) * 64 + s) mod 64 = s" using a(3) by (simp only: mod_mult_self3 mod_less)
  have lo: "65536 \<le> ?c" using a by (cases "q = 0") simp_all
  show ?thesis
    unfolding encode_char_def using lo by (simp only: 1 2 3 4 5 6) simp
qed

lemma encode_char_three: "q < 16 \<Longrightarrow> r < 64 \<Longrightarrow> t < 64 \<Longrightarrow> (q = 0 \<longrightarrow> 32 \<le> r) \<Longrightarrow>
   encode_char (q * 4096 + r * 64 + t) = [224 + q, 128 + r, 128 + t]"
proof -
  assume a: "q < 16" "r < 64" "t < 64" "q = 0 \<longrightarrow> 32 \<le> r"
  let ?c = "q * 4096 + r * 64 + t"
  have 1: "?c div 4096 = q" using a by simp
  have 2: "?c div 64 = q * 64 + r" using a by simp
  have "?c = (q * 64 + r) * 64 + t" by simp
  then have "?c mod 64 = t mod 64" by (simp only: mod_mult_self3)
  then have 3: "?c mod 64 = t" using a by simp
  have 4: "(q * 64 + r) mod 64 = r" using a by simp
  have lo: "2048 \<le> ?c" using a by (cases "q = 0") simp_all
  have hi: "?c < 65536" using a by simp
  show ?thesis
    unfolding encode_char_def using lo hi by (simp only: 1 2 3 4) simp
qed

lemma utf8_decode_encode_char:
  assumes "utf8_decode b bs = Decoded c n"
  shows "encode_char c = take n (b # bs) \<and> 1 \<le> n \<and> n \<le> Suc (length bs)"
proof -
  consider (one) "b < 128" | (two) "194 \<le> b" "b < 224" | (three) "224 \<le> b" "b < 240"
    | (four) "240 \<le> b" "b < 245"
    using assms by (auto simp: utf8_decode_def split: if_splits)
  then show ?thesis
  proof cases
    case one
    with assms show ?thesis by (auto simp: utf8_decode_def encode_char_def)
  next
    case two
    with assms obtain b2 r where bs: "bs = b2 # r" and c2: "128 \<le> b2" "b2 < 192"
      and c: "c = (b - 192) * 64 + (b2 - 128)" and n: "n = 2"
      by (auto simp: utf8_decode_def utf8_two_def is_continuation_byte_def
          split: if_splits list.splits)
    have "encode_char ((b - 192) * 64 + (b2 - 128)) = [192 + (b - 192), 128 + (b2 - 128)]"
      by (rule encode_char_two) (use two c2 in auto)
    with two c2 show ?thesis
      by (simp add: c n bs)
  next
    case three
    with assms obtain b2 b3 r where bs: "bs = b2 # b3 # r"
      and c2: "128 \<le> b2" "b2 < 192" "b = 224 \<longrightarrow> 160 \<le> b2" and c3: "128 \<le> b3" "b3 < 192"
      and c: "c = (b - 224) * 4096 + (b2 - 128) * 64 + (b3 - 128)" and n: "n = 3"
      by (auto simp: utf8_decode_def utf8_three_def is_continuation_byte_def
          split: if_splits list.splits)
    have "encode_char ((b - 224) * 4096 + (b2 - 128) * 64 + (b3 - 128))
          = [224 + (b - 224), 128 + (b2 - 128), 128 + (b3 - 128)]"
      by (rule encode_char_three) (use three c2 c3 in auto)
    with three c2 c3 show ?thesis
      by (simp add: c n bs)
  next
    case four
    with assms obtain b2 b3 b4 r where bs: "bs = b2 # b3 # b4 # r"
      and c2: "128 \<le> b2" "b2 < 192" "b = 240 \<longrightarrow> 144 \<le> b2" and c3: "128 \<le> b3" "b3 < 192"
      and c4: "128 \<le> b4" "b4 < 192"
      and c: "c = (b - 240) * 262144 + (b2 - 128) * 4096 + (b3 - 128) * 64 + (b4 - 128)"
      and n: "n = 4"
      by (auto simp: utf8_decode_def utf8_four_def is_continuation_byte_def
          split: if_splits list.splits)
    have "encode_char ((b - 240) * 262144 + (b2 - 128) * 4096 + (b3 - 128) * 64 + (b4 - 128))
          = [240 + (b - 240), 128 + (b2 - 128), 128 + (b3 - 128), 128 + (b4 - 128)]"
      by (rule encode_char_four) (use four c2 c3 c4 in auto)
    with four c2 c3 c4 show ?thesis
      by (simp add: c n bs)
  qed
qed

lemma subseq_encode_utf8_ignore:
  "subseq (concat (map encode_char (utf8_ignore bs))) bs"
proof (induction bs rule: utf8_ignore.induct)
  case 1
  show ?case by simp
next
  case (2 b bs)
  show ?case
  proof (cases "utf8_decode b bs")
    case (Decoded c n)
    from utf8_decode_encode_char[OF this]
    have e: "encode_char c = take n (b # bs)" and n: "1 \<le> n" by simp_all
    from n have d: "drop n (b # bs) = drop (n - 1) bs" by (cases n) simp_all
    have "subseq (take n (b # bs) @ concat (map encode_char (utf8_ignore (drop (n - 1) bs))))
            (take n (b # bs) @ drop n (b # bs))"
      unfolding d using 2(1)[OF Decoded] by (simp only: subseq_append')
    then show ?thesis
      using Decoded e by (simp del: take_Suc_Cons drop_Suc_Cons)
  next
    case (Invalid n)
    have "subseq (concat (map encode_char (utf8_ignore (drop (n - 1) bs))))
            ((b # take (n - 1) bs) @ drop (n - 1) bs)"
      using 2(2)[OF Invalid] by (rule subseq_drop_many)
    then show ?thesis using Invalid by simp
  next
    case UnexpectedEnd
    then show ?thesis by simp
  qed
qed

lemma utf8_decode_ascii_bytes:
  "utf8_decode b bs = Decoded c n \<Longrightarrow>
     filter (\<lambda>x. x < 128) (drop (n - 1) bs) = filter (\<lambda>x. x < 128) bs
     \<and> (c < 128 \<longleftrightarrow> b < 128) \<and> (b < 128 \<longrightarrow> c = b)"
  "utf8_decode b bs = Invalid n \<Longrightarrow>
     filter (\<lambda>x. x < 128) (drop (n - 1) bs) = filter (\<lambda>x. x < 128) bs \<and> \<not> b < 128"
  "utf8_decode b bs = UnexpectedEnd \<Longrightarrow> filter (\<lambda>x. x < 128) bs = [] \<and> \<not> b < 128"
  by (auto simp: utf8_decode_def utf8_two_def utf8_three_def utf8_four_def
      is_continuation_byte_def split: if_splits list.splits)

lemma utf8_ignore_keeps_ascii:
  "filter (\<lambda>c. c < 128) (utf8_ignore bs) = filter (\<lambda>b. b < 128) bs"
proof (induction bs rule: utf8_ignore.induct)
  case 1
  show ?case by simp
next
  case (2 b bs)
  show ?case
  proof (cases "utf8_decode b bs")
    case (Decoded c n)
    from utf8_decode_ascii_bytes(1)[OF this] 2(1)[OF Decoded] Decoded show ?thesis
      by auto
  next
    case (Invalid n)
    from utf8_decode_ascii_bytes(2)[OF this] 2(2)[OF Invalid] Invalid show ?thesis
      by auto
  next
    case UnexpectedEnd
    from utf8_decode_ascii_bytes(3)[OF this] UnexpectedEnd show ?thesis
      by auto
  qed
qed

text \<open>
  And the encoding of every scalar value is taken for that character, whatever bytes stand
  before and after it.
\<close>

lemma encode_char_decodes:
  assumes "scalar c"
  shows "\<exists>b rest. encode_char c = b # rest \<and> \<not> is_continuation_byte b
           \<and> (\<forall>x\<in>set (b # rest). x < 256)
           \<and> utf8_decode b (rest @ ys) = Decoded c (Suc (length rest))"
proof -
  consider (one) "c < 128" | (two) "128 \<le> c" "c < 2048" | (three) "2048 \<le> c" "c < 65536"
    | (four) "65536 \<le> c" by linarith
  then show ?thesis
  proof cases
    case one
    then show ?thesis
      by (simp add: encode_char_def utf8_decode_def is_continuation_byte_def)
  next
    case two
    define q where "q = c div 64"
    define t where "t = c mod 64"
    have c: "c = q * 64 + t" by (simp add: q_def t_def)
    have b: "2 \<le> q" "q < 32" "t < 64" using two by (simp_all add: q_def t_def)
    have "encode_char c = [192 + q, 128 + t]"
      using two by (simp add: encode_char_def q_def t_def)
    moreover have "utf8_decode (192 + q) ((128 + t) # ys) = Decoded c 2"
      using b by (simp add: utf8_decode_def utf8_two_def is_continuation_byte_def c)
    ultimately show ?thesis
      using b by (simp add: is_continuation_byte_def)
  next
    case three
    define u where "u = c div 64"
    define q where "q = u div 64"
    define r where "r = u mod 64"
    define t where "t = c mod 64"
    have cu: "c = u * 64 + t" by (simp add: u_def t_def)
    have uq: "u = q * 64 + r" by (simp add: q_def r_def)
    have c: "c = q * 4096 + r * 64 + t" by (simp add: cu uq)
    have q4096: "c div 4096 = q"
      by (simp add: q_def u_def div_mult2_eq[of c 64 64, simplified])
    have b: "q < 16" "r < 64" "t < 64" using three by (simp_all add: q_def u_def r_def t_def)
    have lo: "q = 0 \<longrightarrow> 32 \<le> r" using three c b by auto
    have sur: "\<not> (q = 13 \<and> 32 \<le> r)" using assms c b by (auto simp: scalar_def)
    have "encode_char c = [224 + q, 128 + r, 128 + t]"
      using three by (simp add: encode_char_def q4096) (simp add: u_def r_def t_def)
    moreover have "utf8_decode (224 + q) ((128 + r) # (128 + t) # ys) = Decoded c 3"
      using b lo sur by (auto simp: utf8_decode_def utf8_three_def is_continuation_byte_def c)
    ultimately show ?thesis
      using b by (simp add: is_continuation_byte_def)
  next
    case four
    define u where "u = c div 64"
    define v where "v = u div 64"
    define q where "q = v div 64"
    define r where "r = v mod 64"
    define s where "s = u mod 64"
    define t where "t = c mod 64"
    have cu: "c = u * 64 + t" by (simp add: u_def t_def)
    have uv: "u = v * 64 + s" by (simp add: v_def s_def)
    have vq: "v = q * 64 + r" by (simp add: q_def r_def)
    have c: "c = q * 262144 + r * 4096 + s * 64 + t" by (simp add: cu uv vq)
    have v4096: "c div 4096 = v"
      by (simp add: v_def u_def div_mult2_eq[of c 64 64, simplified])
    have q262144: "c div 262144 = q"
      using div_mult2_eq[of c 4096 64] by (simp add: q_def v4096)
    have hi: "c < 1114112" using assms by (simp add: scalar_def)
    have b: "q < 5" "r < 64" "s < 64" "t < 64"
      using hi by (simp_all add: q262144[symmetric] r_def s_def t_def)
    have lo: "q = 0 \<longrightarrow> 16 \<le> r" using four c b by auto
    have top: "q = 4 \<longrightarrow> r < 16" using hi c b by auto
    have "encode_char c = [240 + q, 128 + r, 128 + s, 128 + t]"
      using four by (simp add: encode_char_def q262144 v4096) (simp add: u_def r_def s_def t_def)
    moreover have "utf8_decode (240 + q) ((128 + r) # (128 + s) # (128 + t) # ys) = Decoded c 4"
      using b lo top by (auto simp: utf8_decode_def utf8_four_def is_continuation_byte_def c)
    ultimately show ?thesis
      using b by (simp add: is_continuation_byte_def)
  qed
qed

lemma utf8_ignore_encode_char:
  assumes "scalar c"
  shows "utf8_ignore (xs @ encode_char c @ ys) = utf8_ignore xs @ c # utf8_ignore ys"
proof -
  from encode_char_decodes[OF assms, of ys]
  obtain b rest where e: "encode_char c = b # rest" and nc: "\<not> is_continuation_byte b"
    and d: "utf8_decode b (rest @ ys) = Decoded c (Suc (length rest))" by blast
  have "utf8_ignore (xs @ (b # rest @ ys)) = utf8_ignore xs @ utf8_ignore (b # rest @ ys)"
    by (rule utf8_ignore_append) (simp add: nc)
  moreover have "utf8_ignore (b # rest @ ys) = c # utf8_ignore ys"
    using d by simp
  ultimately show ?thesis by (simp add: e del: utf8_ignore.simps)
qed

lemma utf8_ignore_encode:
  "\<forall>c\<in>set s. scalar c \<Longrightarrow> utf8_ignore (concat (map encode_char s)) = s"
proof (induction s)
  case Nil
  show ?case by simp
next
  case (Cons c s)
  then have "scalar c" by simp
  from utf8_ignore_encode_char[OF this, of "[]" "concat (map encode_char s)"] Cons
  show ?case by simp
qed

lemma encode_char_bytes: "scalar c \<Longrightarrow> x \<in> set (encode_char c) \<Longrightarrow> x < 256"
  using encode_char_decodes[of c "[]"] by auto

lemma of_char_char_of_bytes:
  "\<forall>x\<in>set xs. x < 256 \<Longrightarrow> map (of_char :: char \<Rightarrow> nat) (map char_of xs) = xs"
  by (induction xs) simp_all

lemma subseq_encode_decode: "subseq (encode (decode f)) f"
proof -
  have "subseq (map char_of (concat (map encode_char (utf8_ignore (map of_char f)))))
          (map char_of (map (of_char :: char \<Rightarrow> nat) f))"
    by (rule subseq_map) (rule subseq_encode_utf8_ignore)
  then show ?thesis by (simp add: encode_def decode_def comp_def)
qed

lemma decode_keeps_ascii:
  "filter (\<lambda>c. c < 128) (decode f) = map of_char (filter (\<lambda>x. (of_char x :: nat) < 128) f)"
  by (simp add: decode_def utf8_ignore_keeps_ascii filter_map comp_def)

lemma of_char_encode_char:
  "scalar c \<Longrightarrow> map (of_char :: char \<Rightarrow> nat) (map char_of (encode_char c)) = encode_char c"
  by (rule of_char_char_of_bytes) (auto dest: encode_char_bytes)

lemma decode_encode_char:
  assumes "scalar c"
  shows "decode (xs @ encode [c] @ ys) = decode xs @ c # decode ys"
proof -
  have "map (of_char :: char \<Rightarrow> nat) (encode [c]) = encode_char c"
    using of_char_encode_char[OF assms] by (simp add: encode_def del: map_map)
  then have "decode (xs @ encode [c] @ ys)
             = utf8_ignore (map of_char xs @ encode_char c @ map of_char ys)"
    by (simp add: decode_def)
  then show ?thesis
    using utf8_ignore_encode_char[OF assms, of "map of_char xs" "map of_char ys"]
    by (simp add: decode_def)
qed

lemma decode_encode:
  assumes "\<forall>c\<in>set s. scalar c"
  shows "decode (encode s) = s"
proof -
  have "\<forall>x\<in>set (concat (map encode_char s)). x < 256"
    using assms by (auto dest: encode_char_bytes)
  then have "map (of_char :: char \<Rightarrow> nat) (map char_of (concat (map encode_char s)))
             = concat (map encode_char s)"
    by (rule of_char_char_of_bytes)
  then show ?thesis
    using utf8_ignore_encode[OF assms] by (simp add: decode_def encode_def)
qed

lemma of_char_newline: "of_char newline = (10::nat)"
  by (simp add: newline_def)

lemma decode_append_newline:
  "decode (xs @ newline # ys) = decode xs @ 10 # decode ys"
proof -
  have "utf8_ignore (map of_char xs @ 10 # map of_char ys)
        = utf8_ignore (map of_char xs) @ utf8_ignore (10 # map of_char ys)"
    by (rule utf8_ignore_append) (simp add: is_continuation_byte_def)
  moreover have "utf8_ignore (10 # map of_char ys) = 10 # utf8_ignore (map of_char ys)"
    by (rule utf8_ignore_ascii) simp
  ultimately show ?thesis
    by (simp add: decode_def of_char_newline del: utf8_ignore.simps)
qed

lemma decode_drops_invalid:
  assumes "never_valid b"
  shows "decode (xs @ b # ys) = decode xs @ decode ys"
proof -
  let ?b = "of_char b :: nat"
  from assms have nc: "\<not> is_continuation_byte ?b"
    by (auto simp: never_valid_def is_continuation_byte_def)
  from assms have "utf8_decode ?b (map of_char ys) = Invalid 1"
    by (auto simp: never_valid_def utf8_decode_def)
  then have "utf8_ignore (?b # map of_char ys) = utf8_ignore (map of_char ys)"
    by simp
  moreover have "utf8_ignore (map of_char xs @ ?b # map of_char ys)
        = utf8_ignore (map of_char xs) @ utf8_ignore (?b # map of_char ys)"
    by (rule utf8_ignore_append) (simp add: nc)
  ultimately show ?thesis
    by (simp add: decode_def del: utf8_ignore.simps)
qed

lemma linebreak_lf: "linebreak 10"
  by (simp add: linebreak_def)

lemma splitlines_from_append_lf:
  "v \<noteq> [] \<Longrightarrow>
     splitlines_from cur (u @ 10 # v) = splitlines_from cur (u @ [10]) @ splitlines_from [] v"
proof (induction cur u rule: splitlines_from.induct)
  case (1 cur)
  then show ?case by (cases v) (simp_all add: linebreak_lf)
next
  case (2 cur c)
  then show ?case by (cases v) (simp_all add: linebreak_lf)
next
  case (3 cur c d r)
  then show ?case by simp
qed

lemma splitlines_from_lf_nonempty: "splitlines_from cur (u @ [10]) \<noteq> []"
  by (induction cur u rule: splitlines_from.induct) (simp_all add: linebreak_lf)

lemma splitlines_append_lf:
  "splitlines (u @ 10 # v) = splitlines (u @ [10]) @ splitlines v"
proof (cases "v = []")
  case True
  then show ?thesis by (simp add: splitlines_def)
next
  case False
  then show ?thesis unfolding splitlines_def by (rule splitlines_from_append_lf)
qed

lemma splitlines_lf_length: "1 \<le> length (splitlines (u @ [10]))"
  using splitlines_from_lf_nonempty[of "[]" u]
  by (cases "splitlines_from [] (u @ [10])") (simp_all add: splitlines_def)

text \<open>Every line feed byte of the data ends a line of the decoded text.\<close>

lemma count_newline_le_lines:
  "count_list data newline \<le> length (splitlines (decode data))"
proof (induction "length data" arbitrary: data rule: less_induct)
  case less
  show ?case
  proof (cases "newline \<in> set data")
    case False
    then show ?thesis by simp
  next
    case True
    then obtain d0 d1 where d: "data = d0 @ newline # d1" and n0: "newline \<notin> set d0"
      by (auto dest: split_list_first)
    have "count_list d1 newline \<le> length (splitlines (decode d1))"
      by (rule less) (simp add: d)
    moreover have "count_list data newline = Suc (count_list d1 newline)"
      using n0 by (simp add: d)
    moreover have "decode data = decode d0 @ 10 # decode d1"
      unfolding d by (rule decode_append_newline)
    then have "splitlines (decode data) = splitlines (decode d0 @ [10]) @ splitlines (decode d1)"
      by (simp only: splitlines_append_lf[of "decode d0" "decode d1"])
    ultimately show ?thesis
      using splitlines_lf_length[of "decode d0"] by simp
  qed
qed

section \<open>The log tailer\<close>

text \<open>
  The loop stops with a suffix of the file: the whole file, or a suffix with more than
  \<open>n + 1\<close> line feeds.
\<close>

lemma tail_loop_drop:
  "sz \<le> length f \<Longrightarrow> data = drop sz f \<Longrightarrow>
     \<exists>s\<le>length f. tail_loop f n sz data = drop s f
        \<and> (s = 0 \<or> n + 1 < int (count_list (drop s f) newline))"
proof (induction f n sz data rule: tail_loop.induct)
  case (1 f n sz data)
  show ?case
  proof (cases "0 < sz \<and> int (count_list data newline) \<le> n + 1")
    case True
    define step where "step = min block sz"
    define sz' where "sz' = sz - step"
    have le: "sz' \<le> length f" using "1.prems"(1) by (simp add: sz'_def)
    have "step + sz' = sz"
      by (simp add: sz'_def step_def)
    then have "drop step (drop sz' f) = drop sz f"
      by simp
    then have "take step (drop sz' f) @ drop sz f = drop sz' f"
      using append_take_drop_id[of step "drop sz' f"]
      by (simp del: append_take_drop_id drop_drop)
    then have d: "take step (drop sz' f) @ data = drop sz' f"
      using "1.prems"(2) by simp
    have "\<exists>s\<le>length f. tail_loop f n sz' (take step (drop sz' f) @ data) = drop s f
        \<and> (s = 0 \<or> n + 1 < int (count_list (drop s f) newline))"
      using "1.IH"[OF True step_def sz'_def le d] .
    moreover have "tail_loop f n sz data = tail_loop f n sz' (take step (drop sz' f) @ data)"
      using True by (simp add: tail_loop.simps[of f n sz data] step_def sz'_def Let_def)
    ultimately show ?thesis by simp
  next
    case False
    then have "tail_loop f n sz data = data"
      by (auto simp: tail_loop.simps[of f n sz data])
    moreover from False have "sz = 0 \<or> n + 1 < int (count_list data newline)"
      by auto
    ultimately show ?thesis
      using "1.prems" by (intro exI[of _ sz]) auto
  qed
qed

lemma slice_from_last_append:
  "1 \<le> n \<Longrightarrow> n \<le> int (length B) \<Longrightarrow> slice_from (- n) (A @ B) = slice_from (- n) B"
  by (simp add: slice_from_def nat_add_distrib nat_diff_distrib')

lemma tail_slice_suffix:
  assumes n: "1 \<le> n" and c: "n + 1 < int (count_list (drop s f) newline)"
  shows "slice_from (- n) (splitlines (decode (drop s f)))
         = slice_from (- n) (splitlines (decode f))"
proof -
  from c have "newline \<in> set (drop s f)"
    using n by (cases "newline \<in> set (drop s f)") simp_all
  then obtain d0 d1 where d: "drop s f = d0 @ newline # d1" and n0: "newline \<notin> set d0"
    by (auto dest: split_list_first)
  have f: "f = (take s f @ d0) @ newline # d1"
    using d append_take_drop_id[of s f] by simp
  have "count_list (drop s f) newline = Suc (count_list d1 newline)"
    using n0 by (simp add: d)
  with c count_newline_le_lines[of d1] have len: "n \<le> int (length (splitlines (decode d1)))"
    by simp
  have "decode (drop s f) = decode d0 @ 10 # decode d1"
    unfolding d by (rule decode_append_newline)
  then have 1: "splitlines (decode (drop s f))
                = splitlines (decode d0 @ [10]) @ splitlines (decode d1)"
    by (simp only: splitlines_append_lf[of "decode d0" "decode d1"])
  have "decode f = decode (take s f @ d0) @ 10 # decode d1"
    by (subst f) (rule decode_append_newline)
  then have 2: "splitlines (decode f)
                = splitlines (decode (take s f @ d0) @ [10]) @ splitlines (decode d1)"
    by (simp only: splitlines_append_lf[of "decode (take s f @ d0)" "decode d1"])
  show ?thesis
    unfolding 1 2 using n len by (simp add: slice_from_last_append)
qed

text \<open>
  For a positive count the blocks read from the end give the same last lines as the
  whole file, however the block boundaries cut characters and lines.
\<close>

lemma tail_file_last_lines:
  assumes "1 \<le> n"
  shows "tail_file (File True f) n = slice_from (- n) (splitlines (decode f))"
proof -
  obtain s where s: "s \<le> length f" "tail_loop f n (length f) [] = drop s f"
      "s = 0 \<or> n + 1 < int (count_list (drop s f) newline)"
    using tail_loop_drop[of "length f" f "[]" n] by auto
  show ?thesis
  proof (cases "s = 0")
    case True
    with s show ?thesis by (simp add: tail_file_def)
  next
    case False
    with s have "n + 1 < int (count_list (drop s f) newline)" by simp
    from tail_slice_suffix[OF assms this] s show ?thesis by (simp add: tail_file_def)
  qed
qed

text \<open>
  C1. A log of exactly \<open>K\<close> lines, asked for \<open>N\<close>: all \<open>K\<close> lines when \<open>N \<ge> K\<close>, the last
  \<open>N\<close> when \<open>N < K\<close>. The code breaks this at \<open>N = 0\<close>: the slice \<open>text[-0:]\<close> is the whole
  list. On the two-line log below, a request for no line returns both lines.
\<close>

theorem tail_file_count_zero_returns_every_line:
  "splitlines (decode ''a\<newline>b\<newline>'') = [ascii ''a'', ascii ''b'']
   \<and> tail_file (File True ''a\<newline>b\<newline>'') 0 = [ascii ''a'', ascii ''b'']"
  by (simp add: tail_file_def tail_loop.simps block_def newline_def text_eval)

text \<open>
  The same claim for the counts it holds for: with \<open>N \<ge> 1\<close>, a readable log of \<open>K\<close> lines
  gives all of them in order when \<open>N \<ge> K\<close> and the last \<open>N\<close>, oldest first, when \<open>N < K\<close>.
\<close>

theorem tail_file_positive_count:
  assumes "1 \<le> n" and "lines = splitlines (decode f)"
  shows "(int (length lines) \<le> n \<longrightarrow> tail_file (File True f) n = lines)
       \<and> (n < int (length lines) \<longrightarrow>
            tail_file (File True f) n = drop (length lines - nat n) lines)"
  using assms tail_file_last_lines[of n f]
  by (auto simp: slice_from_def nat_diff_distrib')

theorem tail_file_positive_count_witness:
  "tail_file (File True ''a\<newline>b\<newline>c\<newline>'') 5 = [ascii ''a'', ascii ''b'', ascii ''c'']
   \<and> tail_file (File True ''a\<newline>b\<newline>c\<newline>'') 2 = [ascii ''b'', ascii ''c'']"
proof -
  have l: "[ascii ''a'', ascii ''b'', ascii ''c''] = splitlines (decode ''a\<newline>b\<newline>c\<newline>'')"
    by (simp add: text_eval)
  show ?thesis
    using tail_file_positive_count[OF _ l, of 5] tail_file_positive_count[OF _ l, of 2]
    by (simp add: ascii_def)
qed

text \<open>A missing file, or one that cannot be opened, gives the empty list and no error.\<close>

theorem tail_file_without_a_file:
  "tail_file NoFile n = [] \<and> tail_file (File False f) n = []"
  by (simp add: tail_file_def)

text \<open>
  How decoding treats each kind of invalid sequence: a stray continuation byte, a sequence
  cut off by another character, a surrogate, an overlong form, a byte that starts nothing,
  a sequence cut off by the end of the data. All of them are dropped.
\<close>

lemma decode_drops_each_kind_of_invalid_sequence:
  "decode [CHR ''a'', CHR 0x80, CHR ''b'', CHR 0xE2, CHR 0x82, CHR ''c'', CHR 0xED, CHR 0xA0,
           CHR 0x80, CHR ''d'', CHR 0xE0, CHR 0x80, CHR 0x80, CHR ''e'', CHR 0xFF, CHR 0xF0,
           CHR 0x9F]
   = ascii ''abcde''"
  by (simp add: text_eval)

text \<open>
  C9, as the code has it. Decoding is lenient by dropping, for every byte sequence and with
  no error: the decoded text, encoded again, is the file with bytes taken out and nothing
  put in (so no marker stands for an invalid sequence); every ASCII byte of the file is
  in the text; well-formed UTF-8 is decoded as it stands, each well-formed character
  wherever it stands among other bytes; a byte that starts no sequence leaves nothing.
  For a count \<open>n \<ge> 1\<close> the result is the last \<open>n\<close> lines of the decoded file.
\<close>

theorem tail_file_decodes_by_dropping:
  assumes "1 \<le> n" and "\<forall>c\<in>set s. scalar c" and "scalar c" and "never_valid b"
  shows "tail_file (File True f) n = slice_from (- n) (splitlines (decode f))
       \<and> subseq (encode (decode f)) f
       \<and> filter (\<lambda>c. c < 128) (decode f)
           = map of_char (filter (\<lambda>x. (of_char x :: nat) < 128) f)
       \<and> decode (encode s) = s
       \<and> decode (xs @ encode [c] @ ys) = decode xs @ c # decode ys
       \<and> decode (xs @ b # ys) = decode xs @ decode ys"
  using assms
  by (simp add: tail_file_last_lines subseq_encode_decode decode_keeps_ascii decode_encode
      decode_encode_char decode_drops_invalid)

theorem tail_file_decodes_by_dropping_witness:
  "tail_file (File True ''x\<newline>y\<newline>'') 1 = [ascii ''y'']
   \<and> subseq (encode (ascii ''ab'')) [CHR ''a'', CHR 0x80, CHR ''b'']
   \<and> decode [CHR 0xE2, CHR 0x82, CHR 0xAC] = [8364]
   \<and> decode ([CHR ''a'', CHR 0x80] @ [CHR 0xE2, CHR 0x82, CHR 0xAC] @ [CHR 0xBF, CHR ''b''])
       = [97, 8364, 98]
   \<and> decode ([CHR ''a''] @ CHR 0xFF # [CHR ''b'']) = ascii ''ab''"
proof -
  have 1: "(1::int) \<le> 1" by simp
  have 2: "\<forall>c\<in>set [8364]. scalar c" by (simp add: scalar_def)
  have 3: "scalar 8364" by (simp add: scalar_def)
  have 4: "never_valid (CHR 0xFF)" by (simp add: never_valid_def)
  have e: "encode [8364] = [CHR 0xE2, CHR 0x82, CHR 0xAC]"
    by (simp add: encode_def encode_char_def char_of_def bit_Suc_0_iff)
  have d: "decode [CHR ''a'', CHR 0x80, CHR ''b''] = ascii ''ab''"
    by (simp add: text_eval)
  have l: "slice_from (- 1) (splitlines (decode ''x\<newline>y\<newline>'')) = [ascii ''y'']"
    by (simp add: text_eval)
  from tail_file_decodes_by_dropping[OF 1 2 3 4, of "''x\<newline>y\<newline>''" "[CHR ''a'']" "[CHR ''b'']"]
  have a: "tail_file (File True ''x\<newline>y\<newline>'') 1 = [ascii ''y'']"
      "decode [CHR 0xE2, CHR 0x82, CHR 0xAC] = [8364]"
      "decode ([CHR ''a''] @ CHR 0xFF # [CHR ''b'']) = decode [CHR ''a''] @ decode [CHR ''b'']"
    by (simp_all only: l e)
  from tail_file_decodes_by_dropping[OF 1 2 3 4, of "[CHR ''a'', CHR 0x80, CHR ''b'']"
      "[CHR ''a'', CHR 0x80]" "[CHR 0xBF, CHR ''b'']"]
  have b: "subseq (encode (ascii ''ab'')) [CHR ''a'', CHR 0x80, CHR ''b'']"
      "decode ([CHR ''a'', CHR 0x80] @ [CHR 0xE2, CHR 0x82, CHR 0xAC] @ [CHR 0xBF, CHR ''b''])
       = decode [CHR ''a'', CHR 0x80] @ 8364 # decode [CHR 0xBF, CHR ''b'']"
    by (simp_all only: d e)
  have c: "decode [CHR ''a''] @ decode [CHR ''b''] = ascii ''ab''"
      "decode [CHR ''a'', CHR 0x80] @ 8364 # decode [CHR 0xBF, CHR ''b''] = [97, 8364, 98]"
    by (simp_all add: text_eval)
  from a b c show ?thesis by (simp only:)
qed

text \<open>
  C9 as the spec words it fails: the byte \<open>0xFF\<close> between \<open>a\<close> and \<open>b\<close> is dropped, where
  decoding with replacement gives \<open>a\<close>, U+FFFD, \<open>b\<close>.
\<close>

theorem tail_file_puts_no_marker:
  "tail_file (File True [CHR ''a'', CHR 0xFF, CHR ''b'']) 1 = [[97, 98]]
   \<and> splitlines (utf8_replace (map of_char [CHR ''a'', CHR 0xFF, CHR ''b''])) = [[97, 65533, 98]]"
  by (simp add: tail_file_def tail_loop.simps block_def newline_def text_eval
      replacement_character_def)

section \<open>The log streamer\<close>

lemmas stream_eval = sse_tail_def sse_iteration_def sse_read_def sse_flush_def
  sse_keepalive_def sse_init_def Let_def sse_payload_def encode_def encode_char_def
  clear_event_def keepalive_event_def char_of_def bit_Suc_0_iff



lemma sse_read_truncated:
  assumes "length f < last_size s"
  shows "sse_read (File True f) s
         = (True, s\<lparr>last_size := length f, pending := pending s @ splitlines (decode f)\<rparr>)"
  using assms
  by (cases "f = []") (simp_all add: sse_read_def Let_def decode_def splitlines_def)

lemma sse_read_offset:
  assumes "length f < last_size s"
  shows "last_size (snd (sse_read (File r f) s)) = (if r then length f else 0)"
  using assms by (simp add: sse_read_def Let_def)

lemma sse_read_appended:
  assumes "last_size s = length old"
  shows "sse_read (File True (old @ appended)) s
         = (True, s\<lparr>last_size := length (old @ appended),
                     pending := pending s @ splitlines (decode appended)\<rparr>)"
  using assms
  by (cases "appended = []") (simp_all add: sse_read_def Let_def decode_def splitlines_def)

lemma splitlines_from_no_break:
  "\<forall>c\<in>set cur. \<not> linebreak c \<Longrightarrow> l \<in> set (splitlines_from cur t) \<Longrightarrow> c \<in> set l
     \<Longrightarrow> \<not> linebreak c"
  by (induction cur t arbitrary: l rule: splitlines_from.induct) (auto split: if_splits)

lemma splitlines_no_break: "l \<in> set (splitlines t) \<Longrightarrow> c \<in> set l \<Longrightarrow> \<not> linebreak c"
  using splitlines_from_no_break[of "[]" l t c] by (simp add: splitlines_def)




text \<open>
  C7. When the file is found shorter than the offset, the offset goes back to zero and the
  pass does not fail: a readable file is read again from its start, so that exactly the
  lines of the new, shorter content are added to the buffer and the offset ends at its
  size (at zero when the file cannot be opened). With nothing buffered before and the
  flush window open, the pass sends the lines of the new content and nothing else.
\<close>

theorem sse_truncation_restarts_at_zero:
  assumes "length f < last_size s"
  shows "sse_read (File True f) s
           = (True, s\<lparr>last_size := length f, pending := pending s @ splitlines (decode f)\<rparr>)
       \<and> last_size (snd (sse_read (File r f) s)) = (if r then length f else 0)
       \<and> (pending s = [] \<and> splitlines (decode f) \<noteq> [] \<and> 1 / 4 \<le> now - last_flush s
            \<and> now - last_keepalive s < 10 \<longrightarrow>
          sse_iteration now (File True f) s
            = ([sse_payload (splitlines (decode f))],
               s\<lparr>last_size := length f, pending := [], last_flush := now\<rparr>))"
  using assms
  by (simp add: sse_read_truncated sse_read_offset sse_iteration_def sse_flush_def
      sse_keepalive_def)

theorem sse_truncation_restarts_at_zero_witness:
  "sse_iteration 1 (File True ''x\<newline>'')
     \<lparr>last_size = 10, pending = [], last_flush = 0, last_keepalive = 0\<rparr>
   = ([''data: x\<newline>\<newline>''],
      \<lparr>last_size = 2, pending = [], last_flush = 1, last_keepalive = 0\<rparr>)"
proof -
  let ?s = "\<lparr>last_size = 10, pending = [], last_flush = 0, last_keepalive = 0\<rparr>"
  have l: "splitlines (decode ''x\<newline>'') = [ascii ''x'']"
    by (simp add: text_eval)
  have p: "sse_payload [ascii ''x''] = ''data: x\<newline>\<newline>''"
    by (simp add: stream_eval ascii_def)
  show ?thesis
    using sse_truncation_restarts_at_zero[of "''x\<newline>''" ?s True 1]
    by (simp add: l p)
qed

text \<open>
  The framing of a flush. When appended bytes are read in a pass whose flush window is
  open and the buffer then holds at least one line, the pass sends one payload: one
  \<open>data:\<close> line for each buffered line, then one blank line; the buffer is empty
  afterwards, and no line sent holds a line break.
\<close>

theorem sse_flush_frames_each_line:
  assumes "last_size s = length old"
    and "pending s @ splitlines (decode appended) \<noteq> []"
    and "1 / 4 \<le> now - last_flush s"
  shows "fst (sse_iteration now (File True (old @ appended)) s)
           = sse_payload (pending s @ splitlines (decode appended))
             # (if 10 \<le> now - last_keepalive s then [keepalive_event] else [])
       \<and> pending (snd (sse_iteration now (File True (old @ appended)) s)) = []
       \<and> sse_payload lines
           = encode (concat (map (\<lambda>line. ascii ''data: '' @ line @ [10]) lines) @ [10])
       \<and> (\<forall>line\<in>set (splitlines (decode appended)). \<forall>c\<in>set line. \<not> linebreak c)"
  using assms
  by (auto simp: sse_read_appended sse_iteration_def sse_flush_def sse_keepalive_def
      sse_payload_def dest: splitlines_no_break)

theorem sse_flush_frames_each_line_witness:
  "fst (sse_iteration 1 (File True ''a\<newline>b\<newline>'') (sse_init 0 0))
   = [''data: a\<newline>data: b\<newline>\<newline>'']"
proof -
  have l: "splitlines (decode ''a\<newline>b\<newline>'') = [ascii ''a'', ascii ''b'']"
    by (simp add: text_eval)
  have p: "sse_payload [ascii ''a'', ascii ''b''] = ''data: a\<newline>data: b\<newline>\<newline>''"
    by (simp add: stream_eval ascii_def)
  show ?thesis
    using sse_flush_frames_each_line[of "sse_init 0 0" "[]" "''a\<newline>b\<newline>''" 1]
    by (simp add: l p sse_init_def)
qed

text \<open>
  C2. One framed event for each logical line appended to the file, then one blank line.
  The code breaks this, against its own comment (one data line per log line), when a line
  is written in two parts and a pass falls between them: each pass splits what it has
  read on its own, so that the line \<open>hello\<close> goes out as the two lines \<open>he\<close> and \<open>llo\<close>.
\<close>

theorem sse_splits_a_line_read_in_two_passes:
  "splitlines (decode ''hello\<newline>'') = [ascii ''hello'']
   \<and> sse_tail 0 0 [(1 / 8, File True ''he''), (1 / 2, File True ''hello\<newline>'')]
       = [clear_event, ''data: he\<newline>data: llo\<newline>\<newline>'']"
  by (simp add: stream_eval text_eval)







section \<open>Run records and the two backends\<close>

lemmas int_eval = py_int_def strip_def whitespace_def is_digit_def digits_value_def Let_def
  str_int_def digit_char_def char_of_def bit_Suc_0_iff

lemmas world_eval = quiet_world_def site_a_def site_b_def one_site_config_def
  two_site_config_def DEFAULT_CONFIG_def

lemmas proc_eval = watchdog_pass_def watchdog_site_def wants_start_def is_running_def
  tmux_available_def tmux_has_session_def tmux_start_def tmux_stop_def background_running_def
  background_start_def background_stop_def mkdir_def popen_def site_logfile_def
  action_def start_site_def stop_site_def get_site_def

text \<open>
  C4, as the code has it. With a run record that parses, the detached stop deletes the
  record when the signal was delivered and when the process was not found; on any other
  failure it leaves the record (and everything else) as it was. The three outcomes are
  reported with three different messages.
\<close>

theorem background_stop_outcomes:
  assumes "pid_files w n = Some text" and "py_int text = Some pid"
  shows "(killpg w pid = Delivered \<longrightarrow>
            background_stop n w
              = (''Stopped '' @ n @ '' (pid '' @ str_int pid @ '')'',
                 w\<lparr>pid_files := (pid_files w)(n := None)\<rparr>))
       \<and> (killpg w pid = NoSuchProcess \<longrightarrow>
            background_stop n w
              = (''Process not found. Cleared pid for '' @ n,
                 w\<lparr>pid_files := (pid_files w)(n := None)\<rparr>))
       \<and> (\<forall>e. killpg w pid = Failed e \<longrightarrow>
            background_stop n w = (''Failed to stop '' @ n @ '': '' @ e, w))
       \<and> ''Stopped '' @ n @ x \<noteq> ''Process not found. Cleared pid for '' @ n
       \<and> ''Stopped '' @ n @ x \<noteq> ''Failed to stop '' @ n @ y
       \<and> ''Process not found. Cleared pid for '' @ n \<noteq> ''Failed to stop '' @ n @ y"
  using assms by (simp add: background_stop_def)

theorem background_stop_outcomes_witness:
  "background_stop ''a'' (quiet_world\<lparr>pid_files := [''a'' \<mapsto> ''7''], killpg := (\<lambda>p. Delivered)\<rparr>)
   = (''Stopped a (pid 7)'',
      quiet_world\<lparr>pid_files := ([''a'' \<mapsto> ''7''])(''a'' := None), killpg := (\<lambda>p. Delivered)\<rparr>)"
proof -
  let ?w = "quiet_world\<lparr>pid_files := [''a'' \<mapsto> ''7''], killpg := (\<lambda>p. Delivered)\<rparr>"
  have 1: "pid_files ?w ''a'' = Some ''7''" by simp
  have 2: "py_int ''7'' = Some 7" by (simp add: int_eval)
  have 3: "str_int 7 = ''7''" by (simp add: int_eval str_nat.simps)
  show ?thesis
    using background_stop_outcomes[OF 1 2] by (simp add: 3)
qed

text \<open>
  C4 as the spec words it fails on the third outcome: when the signal cannot be sent for
  another reason than a missing process, the run record is still there after the stop.
\<close>

theorem background_stop_failure_keeps_record:
  "background_stop ''a'' (quiet_world\<lparr>pid_files := [''a'' \<mapsto> ''7''], killpg := (\<lambda>p. Failed ''[Errno 1] Operation not permitted'')\<rparr>)
   = (''Failed to stop a: [Errno 1] Operation not permitted'',
      quiet_world\<lparr>pid_files := [''a'' \<mapsto> ''7''], killpg := (\<lambda>p. Failed ''[Errno 1] Operation not permitted'')\<rparr>)
  \<and> pid_files (snd (background_stop ''a'' (quiet_world\<lparr>pid_files := [''a'' \<mapsto> ''7''], killpg := (\<lambda>p. Failed ''[Errno 1] Operation not permitted'')\<rparr>))) ''a'' = Some ''7''"
  by (simp add: background_stop_def int_eval)

text \<open>Stopping what was never started: a message, no exception, nothing changed.\<close>

theorem stop_of_a_site_never_started:
  "(\<not> tmux_has_session n w \<longrightarrow> tmux_stop n w = (''Session '' @ n @ '' not running'', w))
   \<and> (pid_files w n = None \<longrightarrow> background_stop n w = (''No pid for '' @ n, w))
   \<and> (get_site n w = Some s \<and> n \<notin> sessions w \<and> pid_files w n = None \<longrightarrow>
        action n ''stop'' w = (Inr (''No pid for '' @ n), w))"
  by (simp add: tmux_stop_def background_stop_def action_def stop_site_def
      tmux_has_session_def)

theorem stop_of_a_site_never_started_witness:
  "action ''a'' ''stop'' (quiet_world\<lparr>CONFIG := one_site_config\<rparr>)
   = (Inr ''No pid for a'', quiet_world\<lparr>CONFIG := one_site_config\<rparr>)"
proof -
  have "get_site ''a'' (quiet_world\<lparr>CONFIG := one_site_config\<rparr>) = Some site_a
      \<and> ''a'' \<notin> sessions (quiet_world\<lparr>CONFIG := one_site_config\<rparr>)
      \<and> pid_files (quiet_world\<lparr>CONFIG := one_site_config\<rparr>) ''a'' = None"
    by (simp add: get_site_def world_eval)
  with stop_of_a_site_never_started[of "''a''" "quiet_world\<lparr>CONFIG := one_site_config\<rparr>" site_a]
  show ?thesis by simp
qed

lemma background_start_blocked:
  "entries w c = Blocked \<Longrightarrow> background_start n c cm l w = (Inl OSError, w)"
  by (simp add: background_start_def mkdir_def)

lemma background_start_ok:
  "entries w c \<noteq> Blocked \<Longrightarrow> \<exists>m w'. background_start n c cm l w = (Inr m, w')"
  by (cases "entries w c") (auto simp: background_start_def mkdir_def popen_def split: prod.splits)

lemma background_running_entries [simp]:
  "background_running n (w\<lparr>entries := e\<rparr>) = background_running n w"
  by (simp add: background_running_def split: option.splits)

section \<open>Starting a site that runs\<close>

text \<open>
  C6, as the code has it. A start asks only the backend that the selector picks. With
  tmux available and a session of the site's name, it reports that the site already runs
  and changes nothing. With tmux unavailable and a live run record, it reports the same
  with the recorded process id, provided the working directory is there or can be made;
  sessions, run records and started children stay as they were.
\<close>

theorem start_reports_running_on_selected_backend:
  assumes "get_site n w = Some s"
  shows "(tmux_available w \<and> tmux_has_session n w \<longrightarrow>
            action n ''start'' w = (Inr (n @ '' already running in tmux''), w))
       \<and> (\<not> tmux_available w \<and> background_running n w \<and> entries w (cwd s) \<noteq> Blocked \<longrightarrow>
            fst (action n ''start'' w)
              = Inr (n @ '' already running (pid '' @ strip (the (pid_files w n)) @ '')'')
            \<and> sessions (snd (action n ''start'' w)) = sessions w
            \<and> pid_files (snd (action n ''start'' w)) = pid_files w
            \<and> spawned (snd (action n ''start'' w)) = spawned w
            \<and> (entries w (cwd s) = Dir \<longrightarrow> snd (action n ''start'' w) = w))"
  using assms
  by (cases "entries w (cwd s)")
     (auto simp: action_def start_site_def background_start_def mkdir_def)

theorem start_reports_running_on_selected_backend_witness:
  "action ''a'' ''start'' session_world = (Inr ''a already running in tmux'', session_world)"
proof -
  have 1: "get_site ''a'' session_world = Some site_a"
    by (simp add: session_world_def get_site_def world_eval)
  have 2: "tmux_available session_world \<and> tmux_has_session ''a'' session_world"
    by (simp add: session_world_def tmux_available_def tmux_has_session_def world_eval)
  from start_reports_running_on_selected_backend[OF 1] 2 show ?thesis
    by simp
qed

text \<open>
  C6 as the spec words it, for a site running in either backend, fails. The watchdog finds
  the directory of the site missing, so that the tmux start fails and the detached start,
  which makes the directory, runs the site in the background. A start request then finds
  tmux available and no session, and starts the site a second time, in tmux.
\<close>

theorem start_duplicates_a_background_site:
  "background_running ''a'' (watchdog_pass split_world)
   \<and> spawned (watchdog_pass split_world)
       = [\<lparr>spawn_cwd = ''/srv/a'', spawn_cmd = ''python3 app.py'',
           spawn_log = ''/srv/a/activity.log'', spawn_pid = 100\<rparr>]
   \<and> sessions (watchdog_pass split_world) = {}
   \<and> fst (action ''a'' ''start'' (watchdog_pass split_world)) = Inr ''Started a in tmux''
   \<and> sessions (snd (action ''a'' ''start'' (watchdog_pass split_world))) = {''a''}"
  by (simp add: split_world_def proc_eval world_eval int_eval str_nat.simps)

section \<open>The watchdog pass\<close>

text \<open>
  C3, as the code has it. The \<open>try\<close> of the watchdog stands around the whole loop. A
  failure of the tmux start of a site is caught for that site, which is then started
  detached, and the pass goes on to the remaining sites. When the detached start raises
  (in this world: the working directory is missing and cannot be made), the pass ends
  there, with nothing changed and the remaining sites not looked at until the next pass.
\<close>

theorem watchdog_for_stops_at_a_raise:
  "(wants_start s w \<and> entries w (cwd s) = Blocked \<longrightarrow>
      watchdog_for (s # rest) w = (Inl OSError, w))
   \<and> (\<not> (wants_start s w \<and> entries w (cwd s) = Blocked) \<longrightarrow>
      fst (watchdog_site s w) = Inr ()
      \<and> watchdog_for (s # rest) w = watchdog_for rest (snd (watchdog_site s w)))
   \<and> (wants_start s w \<and> tmux_available w \<and> entries w (cwd s) = Creatable \<longrightarrow>
      fst (tmux_start (name s) (cwd s) (cmd s) (site_logfile s) w)
        = Inl (HTTPException 400 (''CWD does not exist: '' @ cwd s))
      \<and> spawned (snd (watchdog_site s w))
          = spawned w @ [\<lparr>spawn_cwd = cwd s, spawn_cmd = cmd s, spawn_log = site_logfile s,
                           spawn_pid = next_pid w\<rparr>])"
proof (intro conjI impI)
  assume a: "wants_start s w \<and> entries w (cwd s) = Blocked"
  then have "watchdog_site s w = (Inl OSError, w)"
    by (simp add: watchdog_site_def tmux_start_def background_start_blocked)
  then show "watchdog_for (s # rest) w = (Inl OSError, w)" by simp
next
  assume a: "\<not> (wants_start s w \<and> entries w (cwd s) = Blocked)"
  show "fst (watchdog_site s w) = Inr ()"
  proof (cases "wants_start s w")
    case False
    then show ?thesis by (simp add: watchdog_site_def)
  next
    case True
    with a have nb: "entries w (cwd s) \<noteq> Blocked" by simp
    from True have ns: "tmux_installed w \<longrightarrow> name s \<notin> sessions w"
      by (auto simp: wants_start_def is_running_def tmux_available_def tmux_has_session_def)
    from background_start_ok[OF nb]
    obtain m w' where "background_start (name s) (cwd s) (cmd s) (site_logfile s) w = (Inr m, w')"
      by blast
    with True ns show ?thesis
      by (auto simp: watchdog_site_def tmux_start_def tmux_available_def)
  qed
  then show "watchdog_for (s # rest) w = watchdog_for rest (snd (watchdog_site s w))"
    by (cases "watchdog_site s w") (auto split: sum.splits)
next
  assume a: "wants_start s w \<and> tmux_available w \<and> entries w (cwd s) = Creatable"
  then show "fst (tmux_start (name s) (cwd s) (cmd s) (site_logfile s) w)
        = Inl (HTTPException 400 (''CWD does not exist: '' @ cwd s))"
    by (simp add: tmux_start_def)
next
  assume a: "wants_start s w \<and> tmux_available w \<and> entries w (cwd s) = Creatable"
  then have "\<not> background_running (name s) w"
    by (simp add: wants_start_def is_running_def)
  with a show "spawned (snd (watchdog_site s w))
          = spawned w @ [\<lparr>spawn_cwd = cwd s, spawn_cmd = cmd s, spawn_log = site_logfile s,
                           spawn_pid = next_pid w\<rparr>]"
    by (simp add: watchdog_site_def tmux_start_def background_start_def mkdir_def popen_def)
qed

theorem watchdog_for_stops_at_a_raise_witness:
  "pid_files (watchdog_pass fallback_world) ''a'' = Some ''100''
   \<and> sessions (watchdog_pass fallback_world) = {''b''}"
proof -
  have 1: "\<not> (wants_start site_a fallback_world \<and> entries fallback_world (cwd site_a) = Blocked)"
    by (simp add: fallback_world_def world_eval)
  have 2: "sites (CONFIG fallback_world) = [site_a, site_b]"
    by (simp add: fallback_world_def world_eval)
  from watchdog_for_stops_at_a_raise[of site_a fallback_world "[site_b]"] 1
  have "watchdog_for [site_a, site_b] fallback_world
        = watchdog_for [site_b] (snd (watchdog_site site_a fallback_world))"
    by blast
  then show ?thesis
    unfolding watchdog_pass_def 2
    by (simp add: fallback_world_def proc_eval world_eval int_eval str_nat.simps)
qed

text \<open>
  C3 as the spec words it fails: the first site cannot be started, the second is eligible
  and would be started by a pass over it alone, and the pass over both leaves the world
  as it was.
\<close>

theorem watchdog_pass_skips_sites_after_a_raise:
  "wants_start site_b blocked_world
   \<and> watchdog_pass blocked_world = blocked_world
   \<and> pid_files (snd (watchdog_for [site_b] blocked_world)) ''b'' = Some ''100''"
  by (simp add: blocked_world_def proc_eval world_eval int_eval str_nat.simps)

section \<open>The configuration store\<close>

lemmas store_eval = interrupted_write_def atomic_write_config_def run_steps_def write_steps_def
  open_tmp_def dump_tmp_def rotate_backup_def rename_into_place_def load_config_def
  apply_env_overrides_def override_def Let_def

lemma take3: "take 3 [a, b, c, d] = [a, b, c]"
  by (simp add: numeral_3_eq_3)

text \<open>
  C5. A load after an interrupted write sees the old or the new configuration. The code
  breaks this between its last two steps: the live file has been moved to the backup and
  the temporary file is not yet in its place, so that the next load finds no file, writes
  the default configuration and returns it: no site, the default credentials.
\<close>

theorem interrupted_write_after_rotation_loses_config:
  "config_json (interrupted_write 3 two_site_config
                  (quiet_world\<lparr>config_json := Some (Json one_site_config)\<rparr>)) = None
   \<and> fst (load_config (interrupted_write 3 two_site_config
                  (quiet_world\<lparr>config_json := Some (Json one_site_config)\<rparr>)))
       = Inr DEFAULT_CONFIG
   \<and> sites DEFAULT_CONFIG = []
   \<and> sites one_site_config = [site_a]
   \<and> sites two_site_config = [site_a, site_b]"
  by (simp add: store_eval world_eval take3)

text \<open>
  At every other point of the write the claim holds: killed before the rotation, the next
  load returns the old configuration; after the last step, the new one, with the old one
  in the backup.
\<close>

lemma apply_env_overrides_frame [simp]:
  "apply_env_overrides (w\<lparr>config_json := j\<rparr>) = apply_env_overrides w"
  "apply_env_overrides (w\<lparr>config_tmp := t\<rparr>) = apply_env_overrides w"
  "apply_env_overrides (w\<lparr>config_bak := b\<rparr>) = apply_env_overrides w"
  by (simp_all add: apply_env_overrides_def fun_eq_iff)

theorem interrupted_write_points:
  assumes "config_json w = Some (Json old)"
  shows "(k \<le> 2 \<longrightarrow> fst (load_config (interrupted_write k new w)) = Inr (apply_env_overrides w old))
       \<and> (k = 3 \<longrightarrow> fst (load_config (interrupted_write k new w))
                        = Inr (apply_env_overrides w DEFAULT_CONFIG)
                    \<and> config_bak (interrupted_write k new w) = Some (Json old))
       \<and> (4 \<le> k \<longrightarrow> fst (load_config (interrupted_write k new w)) = Inr (apply_env_overrides w new)
                    \<and> config_bak (interrupted_write k new w) = Some (Json old))"
proof -
  have "k = 0 \<or> k = 1 \<or> k = 2 \<or> k = 3 \<or> 4 \<le> k" by arith
  moreover have "take 2 [a, b, c, d] = [a, b]" for a b c d :: "world \<Rightarrow> world"
    by (simp add: numeral_2_eq_2)
  ultimately show ?thesis
    using assms
    by (auto simp: interrupted_write_def run_steps_def write_steps_def take3
        open_tmp_def dump_tmp_def rotate_backup_def rename_into_place_def load_config_def)
qed

theorem interrupted_write_points_witness:
  "fst (load_config (interrupted_write 2 two_site_config
          (quiet_world\<lparr>config_json := Some (Json one_site_config)\<rparr>))) = Inr one_site_config
   \<and> fst (load_config (interrupted_write 4 two_site_config
          (quiet_world\<lparr>config_json := Some (Json one_site_config)\<rparr>))) = Inr two_site_config"
proof -
  let ?w = "quiet_world\<lparr>config_json := Some (Json one_site_config)\<rparr>"
  have 1: "config_json ?w = Some (Json one_site_config)" by simp
  have 2: "apply_env_overrides ?w one_site_config = one_site_config"
    "apply_env_overrides ?w two_site_config = two_site_config"
    by (simp_all add: apply_env_overrides_def override_def world_eval)
  from interrupted_write_points[OF 1, of 2 two_site_config]
    interrupted_write_points[OF 1, of 4 two_site_config] 2
  show ?thesis by simp
qed

section \<open>Adding and deleting a site\<close>

lemma tmux_start_store [simp]:
  "config_json (snd (tmux_start n c cm l w)) = config_json w"
  "CONFIG (snd (tmux_start n c cm l w)) = CONFIG w"
  by (simp_all add: tmux_start_def)

lemma background_start_store [simp]:
  "config_json (snd (background_start n c cm l w)) = config_json w"
  "CONFIG (snd (background_start n c cm l w)) = CONFIG w"
  by (cases "entries w c"; simp add: background_start_def mkdir_def popen_def)+

lemma stop_site_store [simp]:
  "config_json (snd (stop_site n w)) = config_json w"
  "CONFIG (snd (stop_site n w)) = CONFIG w"
  by (simp_all add: stop_site_def tmux_stop_def background_stop_def
      split: option.splits signal_outcome.splits)

lemma start_after_add_store [simp]:
  "config_json (snd (start_after_add f w)) = config_json w"
  "CONFIG (snd (start_after_add f w)) = CONFIG w"
proof -
  have t: "snd (case tmux_start n c cm l w of (Inl e, w1) \<Rightarrow> (Inl e, w1) | (Inr x, w1) \<Rightarrow> (Inr (), w1))
        = snd (tmux_start n c cm l w)" for n c cm l
    by (cases "tmux_start n c cm l w") (auto split: sum.splits)
  have b: "snd (case background_start n c cm l w of (Inl e, w1) \<Rightarrow> (Inl e, w1) | (Inr x, w1) \<Rightarrow> (Inr (), w1))
        = snd (background_start n c cm l w)" for n c cm l
    by (cases "background_start n c cm l w") (auto split: sum.splits)
  show "config_json (snd (start_after_add f w)) = config_json w"
    "CONFIG (snd (start_after_add f w)) = CONFIG w"
    by (simp_all add: start_after_add_def t b split: option.splits)
qed

lemma sites_apply_env_overrides [simp]: "sites (apply_env_overrides w cfg) = sites cfg"
  by (simp add: apply_env_overrides_def)

lemma atomic_write_config_store [simp]:
  "config_json (atomic_write_config cfg w) = Some (Json cfg)"
  "CONFIG (atomic_write_config cfg w) = CONFIG w"
  by (simp_all add: atomic_write_config_def run_steps_def write_steps_def open_tmp_def
      dump_tmp_def rotate_backup_def rename_into_place_def)

lemma assign_config_written:
  "config_json w = Some (Json cfg) \<Longrightarrow>
     assign_config w = (Inr (), w\<lparr>CONFIG := apply_env_overrides w cfg\<rparr>)"
  by (simp add: assign_config_def load_config_def)

lemma load_config_cases:
  "(config_json w = Some Unparseable \<and> load_config w = (Inl JSONDecodeError, w))
   \<or> (\<exists>cfg w1. load_config w = (Inr cfg, w1) \<and> sites cfg = persisted_sites w
        \<and> CONFIG w1 = CONFIG w \<and> config_json w \<noteq> Some Unparseable)"
  by (cases "config_json w")
     (auto simp: load_config_def persisted_sites_def DEFAULT_CONFIG_def split: stored.splits)

lemma delete_site_sites:
  "persisted_sites (snd (delete_site n w))
   = (if get_site n w = None then persisted_sites w
      else filter (\<lambda>s. name s \<noteq> n) (persisted_sites w))"
proof (cases "get_site n w")
  case None
  then show ?thesis by (simp add: delete_site_def)
next
  case (Some s)
  obtain msg w1 where st: "stop_site n w = (msg, w1)" by (cases "stop_site n w")
  then have w1: "config_json w1 = config_json w"
    using stop_site_store(1)[of n w] by simp
  then have p1: "persisted_sites w1 = persisted_sites w" by (simp add: persisted_sites_def)
  from load_config_cases[of w1] show ?thesis
  proof
    assume u: "config_json w1 = Some Unparseable \<and> load_config w1 = (Inl JSONDecodeError, w1)"
    with w1 have "config_json w = Some Unparseable" by simp
    with Some st u show ?thesis
      by (simp add: delete_site_def persisted_sites_def)
  next
    assume "\<exists>cfg w2. load_config w1 = (Inr cfg, w2) \<and> sites cfg = persisted_sites w1
        \<and> CONFIG w2 = CONFIG w1 \<and> config_json w1 \<noteq> Some Unparseable"
    then obtain cfg w2 where l: "load_config w1 = (Inr cfg, w2)"
      and sc: "sites cfg = persisted_sites w1" by blast
    let ?cfg' = "cfg\<lparr>sites := filter (\<lambda>s. name s \<noteq> n) (sites cfg)\<rparr>"
    let ?w3 = "atomic_write_config ?cfg' w2"
    have "assign_config ?w3 = (Inr (), ?w3\<lparr>CONFIG := apply_env_overrides ?w3 ?cfg'\<rparr>)"
      by (rule assign_config_written) simp
    with Some st l sc p1 show ?thesis
      by (simp add: delete_site_def Let_def persisted_sites_def)
  qed
qed

lemma name_new_site [simp]: "name (new_site f p) = form_name f"
  by (simp add: new_site_def)

lemma add_site_sites:
  "persisted_sites (snd (add_site f w)) = persisted_sites w
   \<or> (\<exists>p. persisted_sites (snd (add_site f w)) = persisted_sites w @ [new_site f p]
          \<and> get_site (form_name f) (snd (add_site f w)) \<noteq> None)"
proof (cases "name_ok (form_name f) \<and> get_site (form_name f) w = None
      \<and> \<not> (form_cwd f = [] \<or> entries w (form_cwd f) \<noteq> Dir) \<and> form_cmd f \<noteq> []")
  case False
  then have "snd (add_site f w) = w"
    by (auto simp: add_site_def)
  then show ?thesis by simp
next
  case pre: True
  show ?thesis
  proof (cases "parse_port (form_port f)")
    case (Inl e)
    with pre have "snd (add_site f w) = w" by (simp add: add_site_def)
    then show ?thesis by simp
  next
    case (Inr p)
    from load_config_cases[of w] show ?thesis
    proof
      assume "config_json w = Some Unparseable \<and> load_config w = (Inl JSONDecodeError, w)"
      with pre Inr have "snd (add_site f w) = w" by (simp add: add_site_def)
      then show ?thesis by simp
    next
      assume "\<exists>cfg w1. load_config w = (Inr cfg, w1) \<and> sites cfg = persisted_sites w
        \<and> CONFIG w1 = CONFIG w \<and> config_json w \<noteq> Some Unparseable"
      then obtain cfg w1 where l: "load_config w = (Inr cfg, w1)"
        and sc: "sites cfg = persisted_sites w" by blast
      let ?cfg' = "cfg\<lparr>sites := sites cfg @ [new_site f p]\<rparr>"
      let ?w2 = "atomic_write_config ?cfg' w1"
      let ?w3 = "?w2\<lparr>CONFIG := apply_env_overrides ?w2 ?cfg'\<rparr>"
      have a: "assign_config ?w2 = (Inr (), ?w3)"
        by (rule assign_config_written) simp
      have g3: "get_site (form_name f) ?w3 \<noteq> None"
        by (auto simp: get_site_def find_None_iff)
      have p3: "persisted_sites ?w3 = persisted_sites w @ [new_site f p]"
        by (simp add: persisted_sites_def sc)
      have "snd (add_site f w) = ?w3 \<or> snd (add_site f w) = snd (start_after_add f ?w3)"
        using pre Inr l a
        by (cases "start_after_add f ?w3") (auto simp: add_site_def Let_def split: sum.splits)
      moreover have "persisted_sites (snd (start_after_add f ?w3)) = persisted_sites ?w3"
        by (simp add: persisted_sites_def)
      moreover have "get_site (form_name f) (snd (start_after_add f ?w3))
                     = get_site (form_name f) ?w3"
        by (simp add: get_site_def)
      ultimately show ?thesis
        using g3 p3 by metis
    qed
  qed
qed

lemma add_site_success:
  assumes "name_ok (form_name f)" and "get_site (form_name f) w = None"
    and "form_cwd f \<noteq> []" and "entries w (form_cwd f) = Dir" and "form_cmd f \<noteq> []"
    and "parse_port (form_port f) = Inr p" and "config_json w \<noteq> Some Unparseable"
  shows "persisted_sites (snd (add_site f w)) = persisted_sites w @ [new_site f p]
       \<and> get_site (form_name f) (snd (add_site f w)) \<noteq> None"
proof -
  from load_config_cases[of w] assms(7)
  obtain cfg w1 where l: "load_config w = (Inr cfg, w1)"
    and sc: "sites cfg = persisted_sites w" by blast
  let ?cfg' = "cfg\<lparr>sites := sites cfg @ [new_site f p]\<rparr>"
  let ?w2 = "atomic_write_config ?cfg' w1"
  let ?w3 = "?w2\<lparr>CONFIG := apply_env_overrides ?w2 ?cfg'\<rparr>"
  have a: "assign_config ?w2 = (Inr (), ?w3)"
    by (rule assign_config_written) simp
  have g3: "get_site (form_name f) ?w3 \<noteq> None"
    by (auto simp: get_site_def find_None_iff)
  have p3: "persisted_sites ?w3 = persisted_sites w @ [new_site f p]"
    by (simp add: persisted_sites_def sc)
  have "snd (add_site f w) = ?w3 \<or> snd (add_site f w) = snd (start_after_add f ?w3)"
    using assms l a
    by (cases "start_after_add f ?w3") (auto simp: add_site_def Let_def split: sum.splits)
  moreover have "persisted_sites (snd (start_after_add f ?w3)) = persisted_sites ?w3"
    by (simp add: persisted_sites_def)
  moreover have "get_site (form_name f) (snd (start_after_add f ?w3))
                 = get_site (form_name f) ?w3"
    by (simp add: get_site_def)
  ultimately show ?thesis
    using g3 p3 by metis
qed

lemma add_site_failure:
  assumes "\<not> (name_ok (form_name f) \<and> get_site (form_name f) w = None
      \<and> form_cwd f \<noteq> [] \<and> entries w (form_cwd f) = Dir \<and> form_cmd f \<noteq> []
      \<and> (\<exists>p. parse_port (form_port f) = Inr p) \<and> config_json w \<noteq> Some Unparseable)"
  shows "snd (add_site f w) = w"
proof -
  from load_config_cases[of w]
  have "config_json w = Some Unparseable \<longrightarrow> load_config w = (Inl JSONDecodeError, w)"
    by auto
  with assms show ?thesis
    by (cases "parse_port (form_port f)") (auto simp: add_site_def)
qed

text \<open>
  C8. For a valid name that the persisted site list does not hold, adding the site and
  then deleting it leaves the persisted site list as it was before; and when the request
  passes the checks of \<open>add_site\<close>, the site is in the list in between.
\<close>

theorem add_then_delete_restores_site_list:
  assumes "spec_valid_name (form_name f)"
    and "form_name f \<notin> name ` set (persisted_sites w)"
  shows "persisted_sites (snd (delete_site (form_name f) (snd (add_site f w))))
         = persisted_sites w
       \<and> (name_ok (form_name f) \<and> get_site (form_name f) w = None \<and> form_cwd f \<noteq> []
            \<and> entries w (form_cwd f) = Dir \<and> form_cmd f \<noteq> []
            \<and> parse_port (form_port f) = Inr p \<and> config_json w \<noteq> Some Unparseable \<longrightarrow>
          persisted_sites (snd (add_site f w)) = persisted_sites w @ [new_site f p])"
proof -
  let ?n = "form_name f"
  let ?w' = "snd (add_site f w)"
  have keep: "filter (\<lambda>s. name s \<noteq> ?n) (persisted_sites w) = persisted_sites w"
    using assms(2) by (force simp: filter_id_conv)
  have "persisted_sites (snd (delete_site ?n ?w')) = persisted_sites w"
  proof (cases "name_ok (form_name f) \<and> get_site (form_name f) w = None
      \<and> form_cwd f \<noteq> [] \<and> entries w (form_cwd f) = Dir \<and> form_cmd f \<noteq> []
      \<and> (\<exists>p. parse_port (form_port f) = Inr p) \<and> config_json w \<noteq> Some Unparseable")
    case True
    then obtain q where "parse_port (form_port f) = Inr q" by blast
    with True add_site_success[of f w q] show ?thesis
      by (auto simp: delete_site_sites keep)
  next
    case False
    from add_site_failure[OF this] show ?thesis
      by (simp add: delete_site_sites keep)
  qed
  then show ?thesis
    using add_site_success[of f w p] by blast
qed

theorem add_then_delete_restores_site_list_witness:
  "persisted_sites quiet_world = []
   \<and> persisted_sites (snd (add_site form_a quiet_world))
       = [\<lparr>name = ''a'', cwd = ''/srv/a'', cmd = ''python3 app.py'', port = Some 8080,
           log_path = ''activity.log'', autostart = True, autorestart = False\<rparr>]
   \<and> persisted_sites (snd (delete_site ''a'' (snd (add_site form_a quiet_world)))) = []"
proof -
  have 1: "spec_valid_name (form_name form_a)"
    by (simp add: spec_valid_name_def form_a_def)
  have 2: "form_name form_a \<notin> name ` set (persisted_sites quiet_world)"
    by (simp add: persisted_sites_def world_eval)
  have 3: "name_ok (form_name form_a) \<and> get_site (form_name form_a) quiet_world = None
      \<and> form_cwd form_a \<noteq> [] \<and> entries quiet_world (form_cwd form_a) = Dir
      \<and> form_cmd form_a \<noteq> [] \<and> parse_port (form_port form_a) = Inr (Some 8080)
      \<and> config_json quiet_world \<noteq> Some Unparseable"
    by (simp add: name_ok_def get_site_def parse_port_def form_a_def world_eval int_eval)
  have 4: "new_site form_a (Some 8080)
      = \<lparr>name = ''a'', cwd = ''/srv/a'', cmd = ''python3 app.py'', port = Some 8080,
           log_path = ''activity.log'', autostart = True, autorestart = False\<rparr>"
    by (simp add: new_site_def is_true_def ascii_lower_def form_a_def char_of_def bit_Suc_0_iff)
  have 5: "persisted_sites quiet_world = []"
    by (simp add: persisted_sites_def world_eval)
  have 6: "form_name form_a = ''a''" by (simp add: form_a_def)
  from add_then_delete_restores_site_list[OF 1 2, of "Some 8080"] 3 4 5 6 show ?thesis
    by simp
qed

end
